theory Spec2Isabelle
  imports Main "HOL-Library.Word"
begin

section \<open>Dataset Manager: key management, encrypted store, ingestion and tagging\<close>

text \<open>
  A shallow embedding of the JavaScript sources of the encrypted media vault:
  \<^item> \<^verbatim>\<open>src/crypto/keyManager.js\<close> (classes KeyManager and Encryption),
  \<^item> \<^verbatim>\<open>src/utils/fileHandler.js\<close> (class FileHandler),
  \<^item> the AI client (class AIAPIClient), the IndexedDB manager (class IndexedDBManager)
    and the category manager (class CategoryManager).

  JavaScript strings are sequences of UTF-16 code units, byte buffers are sequences of
  8-bit words. Exceptions and rejected promises are values of the type \<open>error\<close>; every
  method that reads or writes the object fields, \<^verbatim>\<open>localStorage\<close>, the database or a
  random source takes the state and returns the new one.
\<close>

subsection \<open>Strings and buffers\<close>

type_synonym jschar = "16 word"
type_synonym jsstring = "jschar list"
type_synonym bytes = "8 word list"

text \<open>An ASCII literal as a JavaScript string.\<close>

definition js :: "string \<Rightarrow> jsstring" where
  "js s = map (\<lambda>c. of_char c) s"

text \<open>
  The characters matched by \<^verbatim>\<open>\s\<close> in a regular expression and removed by
  \<^verbatim>\<open>String.prototype.trim\<close>: the WhiteSpace and LineTerminator code points of ECMAScript.
\<close>

definition isWhiteSpace :: "jschar \<Rightarrow> bool" where
  "isWhiteSpace c \<longleftrightarrow>
     c \<in> {0x09, 0x0A, 0x0B, 0x0C, 0x0D, 0x20, 0xA0, 0x1680,
          0x2028, 0x2029, 0x202F, 0x205F, 0x3000, 0xFEFF}
     \<or> (0x2000 \<le> c \<and> c \<le> 0x200A)"

definition trim :: "jsstring \<Rightarrow> jsstring" where
  "trim s = rev (dropWhile isWhiteSpace (rev (dropWhile isWhiteSpace s)))"

text \<open>\<^verbatim>\<open>\d\<close>: the ten ASCII digits.\<close>

definition isDigit :: "jschar \<Rightarrow> bool" where
  "isDigit c \<longleftrightarrow> 0x30 \<le> c \<and> c \<le> 0x39"

text \<open>
  \<^verbatim>\<open>s.split(/[...]/)\<close> for a character class: the pieces between the separators, empty
  pieces included; a string without separator (the empty string too) is one piece.
\<close>

fun split_chars :: "(jschar \<Rightarrow> bool) \<Rightarrow> jsstring \<Rightarrow> jsstring \<Rightarrow> jsstring list" where
  "split_chars sep piece [] = [piece]"
| "split_chars sep piece (c # cs) =
     (if sep c then piece # split_chars sep [] cs
      else split_chars sep (piece @ [c]) cs)"

subsection \<open>AIAPIClient.extractTags\<close>

text \<open>The separators of \<^verbatim>\<open>/[,\n;]/\<close>.\<close>

definition isTagSeparator :: "jschar \<Rightarrow> bool" where
  "isTagSeparator c \<longleftrightarrow> c = 0x2C \<or> c = 0x0A \<or> c = 0x3B"

text \<open>The bullet class of the source: hyphen-minus, the bullet U+2022 and asterisk.\<close>

definition isBullet :: "jschar \<Rightarrow> bool" where
  "isBullet c \<longleftrightarrow> c = 0x2D \<or> c = 0x2022 \<or> c = 0x2A"

text \<open>
  The first \<^verbatim>\<open>.replace\<close>, on the bullet class followed by \<^verbatim>\<open>\s*\<close>, anchored at the start:
  one bullet at the start and the white space after it.
\<close>

fun removeBullet :: "jsstring \<Rightarrow> jsstring" where
  "removeBullet [] = []"
| "removeBullet (c # cs) = (if isBullet c then dropWhile isWhiteSpace cs else c # cs)"

text \<open>
  \<^verbatim>\<open>.replace(/^\d+\.\s*/, '')\<close>: a non-empty run of digits at the start, a full stop and
  the white space after it. The run of digits is maximal: a shorter run is followed by
  a digit, not by the full stop.
\<close>

definition removeNumbered :: "jsstring \<Rightarrow> jsstring" where
  "removeNumbered s =
     (let digits = takeWhile isDigit s; rest = dropWhile isDigit s
      in if digits = [] then s
         else (case rest of
                 [] \<Rightarrow> s
               | c # cs \<Rightarrow> if c = 0x2E then dropWhile isWhiteSpace cs else s))"

definition cleanLine :: "jsstring \<Rightarrow> jsstring" where
  "cleanLine line = take 50 (removeNumbered (removeBullet (trim line)))"

text \<open>The \<^verbatim>\<open>for (const line of lines)\<close> loop, pushing onto \<^verbatim>\<open>tags\<close>.\<close>

fun extractTags_loop :: "jsstring list \<Rightarrow> jsstring list \<Rightarrow> jsstring list" where
  "extractTags_loop [] tags = tags"
| "extractTags_loop (line # lines) tags =
     (let cleaned = cleanLine line
      in if length cleaned > 2 \<and> length cleaned < 100
         then extractTags_loop lines (tags @ [cleaned])
         else extractTags_loop lines tags)"

definition extractTags :: "jsstring \<Rightarrow> jsstring list" where
  "extractTags response =
     (let lines = split_chars isTagSeparator [] response
      in take 10 (extractTags_loop lines []))"

text \<open>
  The extraction rule in the words of the specification: the fragments between commas,
  semicolons and newlines; each trimmed, freed of a single leading bullet or of a
  leading number with its full stop (one marker or the other), cut to 50 characters;
  the fragments longer than 2 and shorter than 100 kept; the first 10 of them returned.
  The white space after a removed marker goes with it, as the example of the
  specification requires.
\<close>

definition spec_fragments :: "jsstring \<Rightarrow> jsstring list" where
  "spec_fragments response = foldr
     (\<lambda>c fs. if c = 0x2C \<or> c = 0x3B \<or> c = 0x0A then [] # fs
             else (case fs of [] \<Rightarrow> [[c]] | f # fs' \<Rightarrow> (c # f) # fs'))
     response [[]]"

definition spec_strip_bullet :: "jsstring \<Rightarrow> jsstring" where
  "spec_strip_bullet s =
     (if s \<noteq> [] \<and> hd s \<in> {0x2D, 0x2022, 0x2A} then dropWhile isWhiteSpace (tl s) else s)"

definition spec_strip_number :: "jsstring \<Rightarrow> jsstring" where
  "spec_strip_number s =
     (let n = length (takeWhile (\<lambda>c. 0x30 \<le> c \<and> c \<le> 0x39) s)
      in if 0 < n \<and> n < length s \<and> s ! n = 0x2E
         then dropWhile isWhiteSpace (drop (Suc n) s) else s)"

definition spec_strip_marker :: "jsstring \<Rightarrow> jsstring" where
  "spec_strip_marker s =
     (if s \<noteq> [] \<and> hd s \<in> {0x2D, 0x2022, 0x2A} then spec_strip_bullet s
      else spec_strip_number s)"

definition spec_tags :: "jsstring \<Rightarrow> jsstring list" where
  "spec_tags response =
     take 10 (filter (\<lambda>t. 2 < length t \<and> length t < 100)
       (map (\<lambda>f. take 50 (spec_strip_marker (trim f))) (spec_fragments response)))"

text \<open>
  The rule with both removals, one after the other: a single leading bullet first,
  then, from what is left, a leading number with its full stop.
\<close>

definition both_markers :: "jsstring \<Rightarrow> jsstring" where
  "both_markers s = spec_strip_number (spec_strip_bullet s)"

definition both_markers_tags :: "jsstring \<Rightarrow> jsstring list" where
  "both_markers_tags response =
     take 10 (filter (\<lambda>t. 2 < length t \<and> length t < 100)
       (map (\<lambda>f. take 50 (both_markers (trim f))) (spec_fragments response)))"

subsection \<open>The browser\<close>

text \<open>
  The sources call the Web Crypto API, \<^verbatim>\<open>TextEncoder\<close>/\<^verbatim>\<open>TextDecoder\<close>, \<^verbatim>\<open>btoa\<close>/\<^verbatim>\<open>atob\<close>,
  \<^verbatim>\<open>JSON\<close> and the image, video and canvas elements. They are not part of the
  repository: every function below takes them as a parameter, a record of functions.
  The type \<open>'k\<close> is the opaque \<^verbatim>\<open>CryptoKey\<close>.
\<close>

datatype error =
    Locked                  \<comment> \<open>\<^verbatim>\<open>Application is locked. Please unlock first.\<close>\<close>
  | UnsupportedFileType     \<comment> \<open>\<^verbatim>\<open>Unsupported file type\<close>\<close>
  | MediaError string       \<comment> \<open>an image or video failed to load or to render\<close>
  | ConstraintError         \<comment> \<open>IndexedDB: primary key or unique index already present\<close>
  | InvalidCharacterError   \<comment> \<open>\<^verbatim>\<open>atob\<close> on a string that is not base64\<close>
  | OperationError          \<comment> \<open>\<^verbatim>\<open>crypto.subtle.decrypt\<close>: authentication failed\<close>
  | TypeError               \<comment> \<open>a \<^verbatim>\<open>null\<close> where a buffer is required\<close>

datatype hash_name = SHA_1 | SHA_256 | SHA_384 | SHA_512

datatype mediaType = Image | Video

record rawFile =
  file_name :: jsstring
  file_type :: jsstring
  file_size :: nat
  file_bytes :: bytes

record 'k browser =
  utf8_encode :: "jsstring \<Rightarrow> bytes"
  utf8_decode :: "bytes \<Rightarrow> jsstring"
  pbkdf2 :: "hash_name \<Rightarrow> bytes \<Rightarrow> nat \<Rightarrow> bytes \<Rightarrow> nat \<Rightarrow> 'k"
    \<comment> \<open>\<^verbatim>\<open>deriveKey({name: 'PBKDF2', salt, iterations, hash}, password, {name: 'AES-GCM', length})\<close>:
        hash, salt, iterations, password bytes, key length in bits\<close>
  aes_gcm_encrypt :: "'k \<Rightarrow> bytes \<Rightarrow> bytes \<Rightarrow> bytes"
    \<comment> \<open>key, iv, plaintext\<close>
  aes_gcm_decrypt :: "'k \<Rightarrow> bytes \<Rightarrow> bytes \<Rightarrow> bytes option"
    \<comment> \<open>key, iv, ciphertext; \<open>None\<close> when the promise is rejected\<close>
  btoa :: "jsstring \<Rightarrow> jsstring"
  atob :: "jsstring \<Rightarrow> jsstring option"
    \<comment> \<open>\<open>None\<close> when \<^verbatim>\<open>atob\<close> throws\<close>
  json_stringify :: "jsstring \<Rightarrow> jsstring \<Rightarrow> jsstring"
    \<comment> \<open>\<^verbatim>\<open>JSON.stringify({encrypted, iv})\<close>\<close>
  json_parse :: "jsstring \<Rightarrow> (jsstring \<times> jsstring) option"
    \<comment> \<open>\<^verbatim>\<open>const {encrypted, iv} = JSON.parse(text)\<close>; \<open>None\<close> when that throws\<close>
  decode_media :: "mediaType \<Rightarrow> rawFile \<Rightarrow> (nat \<times> nat \<times> nat option) option"
    \<comment> \<open>loading the file into an image or video element: width, height and, for a
        video, the duration; \<open>None\<close> when \<^verbatim>\<open>onerror\<close> fires\<close>
  render_thumbnail :: "mediaType \<Rightarrow> rawFile \<Rightarrow> error + bytes"
    \<comment> \<open>drawing on a canvas and \<^verbatim>\<open>toBlob\<close>\<close>

subsection \<open>The state\<close>

record category =
  cat_id :: jsstring
  cat_name :: jsstring
  cat_description :: jsstring
  cat_color :: jsstring
  cat_createdAt :: nat

record mediaItem =
  mi_id :: jsstring
  mi_categoryId :: jsstring
  mi_type :: mediaType
  mi_fileName :: jsstring
  mi_fileSize :: nat
  mi_width :: nat
  mi_height :: nat
  mi_duration :: nat
  mi_thumbnailData :: bytes
  mi_thumbnailIv :: jsstring
  mi_fileData :: bytes
  mi_fileIv :: jsstring
  mi_mimeType :: jsstring
  mi_aiTags :: "jsstring list"
  mi_aiPrompt :: jsstring
  mi_aiModel :: jsstring
  mi_aiResponse :: "jsstring option"
  mi_lastTagged :: "nat option"
  mi_createdAt :: nat
  mi_deletedOriginal :: bool

record aiConfig =
  cfg_id :: jsstring
  cfg_name :: jsstring
  cfg_apiUrl :: jsstring
  cfg_apiKeyEncrypted :: jsstring
  cfg_apiKeyIv :: jsstring
  cfg_model :: jsstring
  cfg_defaultPrompt :: jsstring
  cfg_isActive :: bool
  cfg_lastTested :: nat

text \<open>
  One record for everything the methods read and write: the fields of the KeyManager,
  of the AIAPIClient and of the CategoryManager, \<^verbatim>\<open>localStorage\<close>, the three object
  stores of the database, and the sources of values the code draws from outside:
  \<^verbatim>\<open>crypto.getRandomValues\<close> (a stream of bytes), \<^verbatim>\<open>Math.random\<close> (a stream of numbers,
  read as \<^verbatim>\<open>Math.random() * 16 | 0\<close>) and \<^verbatim>\<open>Date.now()\<close>.
\<close>

record 'k state =
  masterKey :: "'k option"
  salt :: "bytes option"
  localStorage :: "string \<rightharpoonup> jsstring"
  cryptoRandom :: "nat \<Rightarrow> 8 word"
  mathRandom :: "nat \<Rightarrow> nat"
  now :: nat
  categories :: "category list"
  mediaItems :: "mediaItem list"
  aiConfigs :: "aiConfig list"
  apiUrl :: jsstring
  apiKey :: jsstring
  model :: jsstring
  defaultPrompt :: jsstring
  cm_categories :: "category list"
  activeCategory :: jsstring
  progress :: "(nat \<times> nat \<times> jsstring) list"

text \<open>\<^verbatim>\<open>crypto.getRandomValues(new Uint8Array(n))\<close>: the next \<open>n\<close> bytes of the stream.\<close>

definition getRandomValues :: "nat \<Rightarrow> 'k state \<Rightarrow> bytes \<times> 'k state" where
  "getRandomValues n s =
     (map (cryptoRandom s) [0..<n], s\<lparr>cryptoRandom := (\<lambda>i. cryptoRandom s (i + n))\<rparr>)"

subsection \<open>KeyManager\<close>

text \<open>
  \<^verbatim>\<open>bufferToBase64\<close>: the loop appends \<^verbatim>\<open>String.fromCharCode(bytes[i])\<close> for every byte, then
  \<^verbatim>\<open>btoa\<close>. \<^verbatim>\<open>base64ToBuffer\<close>: \<^verbatim>\<open>atob\<close>, then the loop stores \<^verbatim>\<open>binary.charCodeAt(i)\<close>
  into a \<^verbatim>\<open>Uint8Array\<close>, which keeps the low 8 bits.
\<close>

definition bufferToBase64 :: "'k browser \<Rightarrow> bytes \<Rightarrow> jsstring" where
  "bufferToBase64 B buffer = btoa B (map ucast buffer)"

definition base64ToBuffer :: "'k browser \<Rightarrow> jsstring \<Rightarrow> error + bytes" where
  "base64ToBuffer B base64 =
     (case atob B base64 of
        None \<Rightarrow> Inl InvalidCharacterError
      | Some binary \<Rightarrow> Inr (map ucast binary))"

text \<open>
  A string read from \<^verbatim>\<open>localStorage\<close> is truthy when the key is present and the value
  is not the empty string.
\<close>

definition truthy :: "jsstring option \<Rightarrow> bool" where
  "truthy v \<longleftrightarrow> (case v of None \<Rightarrow> False | Some str \<Rightarrow> str \<noteq> [])"

definition initializeSalt :: "'k browser \<Rightarrow> 'k state \<Rightarrow> (error + unit) \<times> 'k state" where
  "initializeSalt B s =
     (case localStorage s ''app_salt'' of
        Some storedSalt \<Rightarrow>
          if storedSalt \<noteq> [] then
            (case base64ToBuffer B storedSalt of
               Inl e \<Rightarrow> (Inl e, s)
             | Inr buf \<Rightarrow> (Inr (), s\<lparr>salt := Some buf\<rparr>))
          else
            (let (r, s1) = getRandomValues 16 s;
                 s2 = s1\<lparr>salt := Some r\<rparr>
             in (Inr (), s2\<lparr>localStorage := (localStorage s2)(''app_salt'' \<mapsto> bufferToBase64 B r)\<rparr>))
      | None \<Rightarrow>
          (let (r, s1) = getRandomValues 16 s;
               s2 = s1\<lparr>salt := Some r\<rparr>
           in (Inr (), s2\<lparr>localStorage := (localStorage s2)(''app_salt'' \<mapsto> bufferToBase64 B r)\<rparr>)))"

definition isPasswordSet :: "'k state \<Rightarrow> bool" where
  "isPasswordSet s \<longleftrightarrow> localStorage s ''app_salt'' \<noteq> None"

definition deriveKey :: "'k browser \<Rightarrow> jsstring \<Rightarrow> 'k state \<Rightarrow> (error + 'k) \<times> 'k state" where
  "deriveKey B password s =
     (case (if salt s = None then initializeSalt B s else (Inr (), s)) of
        (Inl e, s1) \<Rightarrow> (Inl e, s1)
      | (Inr _, s1) \<Rightarrow>
          (let passwordBuffer = utf8_encode B password
           in case salt s1 of
                None \<Rightarrow> (Inl TypeError, s1)
              | Some slt \<Rightarrow>
                  (let key = pbkdf2 B SHA_256 slt 100000 passwordBuffer 256
                   in (Inr key, s1\<lparr>masterKey := Some key\<rparr>))))"

text \<open>
  \<^verbatim>\<open>verifyPassword\<close> never rejects: everything after the first test runs inside
  \<^verbatim>\<open>try { ... } catch (error) { return false; }\<close>.
\<close>

definition verifyPassword :: "'k browser \<Rightarrow> jsstring \<Rightarrow> 'k state \<Rightarrow> bool \<times> 'k state" where
  "verifyPassword B password s =
     (case localStorage s ''password_test'' of
        None \<Rightarrow> (True, s)
      | Some testData \<Rightarrow>
          if testData = [] then (True, s)
          else
            (case deriveKey B password s of
               (Inl e, s1) \<Rightarrow> (False, s1)
             | (Inr key, s1) \<Rightarrow>
                 (case json_parse B testData of
                    None \<Rightarrow> (False, s1)
                  | Some (encrypted, iv) \<Rightarrow>
                      (case base64ToBuffer B iv of
                         Inl e \<Rightarrow> (False, s1)
                       | Inr ivBuffer \<Rightarrow>
                           (case base64ToBuffer B encrypted of
                              Inl e \<Rightarrow> (False, s1)
                            | Inr encryptedBuffer \<Rightarrow>
                                (case aes_gcm_decrypt B key ivBuffer encryptedBuffer of
                                   None \<Rightarrow> (False, s1)
                                 | Some decrypted \<Rightarrow>
                                     (utf8_decode B decrypted = js ''PASSWORD_CORRECT'', s1)))))))"

definition setupPassword :: "'k browser \<Rightarrow> jsstring \<Rightarrow> 'k state \<Rightarrow> (error + bool) \<times> 'k state" where
  "setupPassword B password s =
     (case initializeSalt B s of
        (Inl e, s1) \<Rightarrow> (Inl e, s1)
      | (Inr _, s1) \<Rightarrow>
          (case deriveKey B password s1 of
             (Inl e, s2) \<Rightarrow> (Inl e, s2)
           | (Inr key, s2) \<Rightarrow>
               (let testData = utf8_encode B (js ''PASSWORD_CORRECT'');
                    (iv, s3) = getRandomValues 12 s2;
                    encrypted = aes_gcm_encrypt B key iv testData
                in (Inr True,
                    s3\<lparr>localStorage := (localStorage s3)(''password_test'' \<mapsto>
                          json_stringify B (bufferToBase64 B encrypted) (bufferToBase64 B iv))\<rparr>))))"

definition getMasterKey :: "'k state \<Rightarrow> error + 'k" where
  "getMasterKey s = (case masterKey s of None \<Rightarrow> Inl Locked | Some key \<Rightarrow> Inr key)"

definition lock :: "'k state \<Rightarrow> 'k state" where
  "lock s = s\<lparr>masterKey := None\<rparr>"

definition isUnlocked :: "'k state \<Rightarrow> bool" where
  "isUnlocked s \<longleftrightarrow> masterKey s \<noteq> None"

subsection \<open>Encryption\<close>

definition encryptFile :: "'k browser \<Rightarrow> bytes \<Rightarrow> 'k state \<Rightarrow> (error + bytes \<times> bytes) \<times> 'k state" where
  "encryptFile B fileBlob s =
     (case getMasterKey s of
        Inl e \<Rightarrow> (Inl e, s)
      | Inr key \<Rightarrow>
          (let (iv, s1) = getRandomValues 12 s;
               encrypted = aes_gcm_encrypt B key iv fileBlob
           in (Inr (encrypted, iv), s1)))"

definition decryptFile :: "'k browser \<Rightarrow> bytes \<Rightarrow> bytes \<Rightarrow> 'k state \<Rightarrow> error + bytes" where
  "decryptFile B encryptedData iv s =
     (case getMasterKey s of
        Inl e \<Rightarrow> Inl e
      | Inr key \<Rightarrow>
          (case aes_gcm_decrypt B key iv encryptedData of
             None \<Rightarrow> Inl OperationError
           | Some decrypted \<Rightarrow> Inr decrypted))"

definition encryptString :: "'k browser \<Rightarrow> jsstring \<Rightarrow> 'k state \<Rightarrow> (error + jsstring \<times> jsstring) \<times> 'k state" where
  "encryptString B text s =
     (case getMasterKey s of
        Inl e \<Rightarrow> (Inl e, s)
      | Inr key \<Rightarrow>
          (let (iv, s1) = getRandomValues 12 s;
               data = utf8_encode B text;
               encrypted = aes_gcm_encrypt B key iv data
           in (Inr (bufferToBase64 B encrypted, bufferToBase64 B iv), s1)))"

definition encryptBlob :: "'k browser \<Rightarrow> bytes \<Rightarrow> 'k state \<Rightarrow> (error + bytes \<times> jsstring) \<times> 'k state" where
  "encryptBlob B blob s =
     (case encryptFile B blob s of
        (Inl e, s1) \<Rightarrow> (Inl e, s1)
      | (Inr (encrypted, iv), s1) \<Rightarrow> (Inr (encrypted, bufferToBase64 B iv), s1))"

definition decryptToBlob :: "'k browser \<Rightarrow> bytes \<Rightarrow> jsstring \<Rightarrow> 'k state \<Rightarrow> error + bytes" where
  "decryptToBlob B encryptedData ivBase64 s =
     (case base64ToBuffer B ivBase64 of
        Inl e \<Rightarrow> Inl e
      | Inr iv \<Rightarrow> decryptFile B encryptedData iv s)"

subsection \<open>IndexedDBManager\<close>

text \<open>
  An object store is the list of its records. \<open>key\<close> reads the primary key (the key path
  \<^verbatim>\<open>id\<close> of all three stores), \<open>uniq\<close> lists the key paths of the unique indexes.
  \<^verbatim>\<open>store.add\<close> fails when the primary key or a unique index value is present;
  \<^verbatim>\<open>store.put\<close> replaces the record with the same primary key or inserts, and fails when
  another record holds the same unique index value.
\<close>

definition idb_add :: "('r \<Rightarrow> jsstring) \<Rightarrow> ('r \<Rightarrow> jsstring) list \<Rightarrow> 'r \<Rightarrow> 'r list \<Rightarrow> error + 'r list" where
  "idb_add key uniq r store =
     (if filter (\<lambda>x. key x = key r \<or> list_ex (\<lambda>ix. ix x = ix r) uniq) store \<noteq> []
      then Inl ConstraintError
      else Inr (store @ [r]))"

definition idb_put :: "('r \<Rightarrow> jsstring) \<Rightarrow> ('r \<Rightarrow> jsstring) list \<Rightarrow> 'r \<Rightarrow> 'r list \<Rightarrow> error + 'r list" where
  "idb_put key uniq r store =
     (if filter (\<lambda>x. key x \<noteq> key r \<and> list_ex (\<lambda>ix. ix x = ix r) uniq) store \<noteq> []
      then Inl ConstraintError
      else if filter (\<lambda>x. key x = key r) store \<noteq> []
      then Inr (map (\<lambda>x. if key x = key r then r else x) store)
      else Inr (store @ [r]))"

definition idb_get :: "('r \<Rightarrow> jsstring) \<Rightarrow> jsstring \<Rightarrow> 'r list \<Rightarrow> 'r option" where
  "idb_get key k store = find (\<lambda>x. key x = k) store"

definition idb_delete :: "('r \<Rightarrow> jsstring) \<Rightarrow> jsstring \<Rightarrow> 'r list \<Rightarrow> 'r list" where
  "idb_delete key k store = filter (\<lambda>x. key x \<noteq> k) store"

definition idb_getByIndex :: "('r \<Rightarrow> jsstring) \<Rightarrow> jsstring \<Rightarrow> 'r list \<Rightarrow> 'r list" where
  "idb_getByIndex ix v store = filter (\<lambda>x. ix x = v) store"

definition addMediaItem :: "mediaItem \<Rightarrow> 'k state \<Rightarrow> (error + unit) \<times> 'k state" where
  "addMediaItem item s =
     (case idb_add mi_id [] item (mediaItems s) of
        Inl e \<Rightarrow> (Inl e, s)
      | Inr store \<Rightarrow> (Inr (), s\<lparr>mediaItems := store\<rparr>))"

definition updateMediaItem :: "mediaItem \<Rightarrow> 'k state \<Rightarrow> (error + unit) \<times> 'k state" where
  "updateMediaItem item s =
     (case idb_put mi_id [] item (mediaItems s) of
        Inl e \<Rightarrow> (Inl e, s)
      | Inr store \<Rightarrow> (Inr (), s\<lparr>mediaItems := store\<rparr>))"

definition getMediaItemsByCategory :: "jsstring \<Rightarrow> 'k state \<Rightarrow> mediaItem list" where
  "getMediaItemsByCategory categoryId s = idb_getByIndex mi_categoryId categoryId (mediaItems s)"

definition getAllCategories :: "'k state \<Rightarrow> category list" where
  "getAllCategories s = categories s"

definition db_deleteCategory :: "jsstring \<Rightarrow> 'k state \<Rightarrow> 'k state" where
  "db_deleteCategory ident s = s\<lparr>categories := idb_delete cat_id ident (categories s)\<rparr>"

definition addAIConfig :: "aiConfig \<Rightarrow> 'k state \<Rightarrow> (error + unit) \<times> 'k state" where
  "addAIConfig config s =
     (case idb_add cfg_id [cfg_name] config (aiConfigs s) of
        Inl e \<Rightarrow> (Inl e, s)
      | Inr store \<Rightarrow> (Inr (), s\<lparr>aiConfigs := store\<rparr>))"

definition updateAIConfig :: "aiConfig \<Rightarrow> 'k state \<Rightarrow> (error + unit) \<times> 'k state" where
  "updateAIConfig config s =
     (case idb_put cfg_id [cfg_name] config (aiConfigs s) of
        Inl e \<Rightarrow> (Inl e, s)
      | Inr store \<Rightarrow> (Inr (), s\<lparr>aiConfigs := store\<rparr>))"

definition getAIConfig :: "jsstring \<Rightarrow> 'k state \<Rightarrow> aiConfig option" where
  "getAIConfig ident s = idb_get cfg_id ident (aiConfigs s)"

definition getAllAIConfigs :: "'k state \<Rightarrow> aiConfig list" where
  "getAllAIConfigs s = aiConfigs s"

subsection \<open>generateUUID\<close>

text \<open>
  \<^verbatim>\<open>'xxxxxxxx-xxxx-4xxx-yxxx-xxxxxxxxxxxx'.replace(/[xy]/g, ...)\<close>: every \<^verbatim>\<open>x\<close> and \<^verbatim>\<open>y\<close>
  draws \<^verbatim>\<open>r = Math.random() * 16 | 0\<close>; \<^verbatim>\<open>x\<close> becomes the hexadecimal digit of \<^verbatim>\<open>r\<close>,
  \<^verbatim>\<open>y\<close> that of \<^verbatim>\<open>r & 0x3 | 0x8\<close>, which for \<open>r\<close> below 16 is \<open>r mod 4 + 8\<close>.
\<close>

definition hexDigit :: "nat \<Rightarrow> jschar" where
  "hexDigit v = (if v < 10 then of_nat (48 + v) else of_nat (87 + v))"

fun uuid_replace :: "jsstring \<Rightarrow> (nat \<Rightarrow> nat) \<Rightarrow> jsstring \<times> (nat \<Rightarrow> nat)" where
  "uuid_replace [] rnd = ([], rnd)"
| "uuid_replace (c # cs) rnd =
     (if c = 0x78 \<or> c = 0x79 then
        (let r = rnd 0 mod 16;
             v = (if c = 0x78 then r else (r mod 4) + 8);
             (rest, rnd') = uuid_replace cs (\<lambda>i. rnd (i + 1))
         in (hexDigit v # rest, rnd'))
      else
        (let (rest, rnd') = uuid_replace cs rnd
         in (c # rest, rnd')))"

definition generateUUID :: "'k state \<Rightarrow> jsstring \<times> 'k state" where
  "generateUUID s =
     (let (uuid, rnd') = uuid_replace (js ''xxxxxxxx-xxxx-4xxx-yxxx-xxxxxxxxxxxx'') (mathRandom s)
      in (uuid, s\<lparr>mathRandom := rnd'\<rparr>))"

subsection \<open>FileHandler\<close>

record metadata =
  md_width :: nat
  md_height :: nat
  md_duration :: "nat option"
  md_size :: nat
  md_type :: jsstring
  md_fileName :: jsstring

definition isValidImage :: "rawFile \<Rightarrow> bool" where
  "isValidImage f \<longleftrightarrow> file_type f \<in> set
     [js ''image/jpeg'', js ''image/jpg'', js ''image/png'', js ''image/gif'', js ''image/webp'']"

definition isValidVideo :: "rawFile \<Rightarrow> bool" where
  "isValidVideo f \<longleftrightarrow> file_type f \<in> set
     [js ''video/mp4'', js ''video/webm'', js ''video/ogg'', js ''video/quicktime'',
      js ''video/x-msvideo'', js ''video/x-matroska'']"

text \<open>
  \<^verbatim>\<open>extractMetadata\<close> of the image and of the video processor: the element reports the
  dimensions (and the duration of a video), the rest is read from the file.
\<close>

fun extractMetadata :: "'k browser \<Rightarrow> mediaType \<Rightarrow> rawFile \<Rightarrow> error + metadata" where
  "extractMetadata B Image f =
     (case decode_media B Image f of
        None \<Rightarrow> Inl (MediaError ''Failed to load image'')
      | Some (w, h, d) \<Rightarrow>
          Inr \<lparr>md_width = w, md_height = h, md_duration = None, md_size = file_size f,
               md_type = file_type f, md_fileName = file_name f\<rparr>)"
| "extractMetadata B Video f =
     (case decode_media B Video f of
        None \<Rightarrow> Inl (MediaError ''Failed to load video metadata'')
      | Some (w, h, d) \<Rightarrow>
          Inr \<lparr>md_width = w, md_height = h, md_duration = d, md_size = file_size f,
               md_type = file_type f, md_fileName = file_name f\<rparr>)"

definition generateThumbnail :: "'k browser \<Rightarrow> mediaType \<Rightarrow> rawFile \<Rightarrow> error + bytes" where
  "generateThumbnail B ty f = render_thumbnail B ty f"

definition processFile :: "'k browser \<Rightarrow> rawFile \<Rightarrow> jsstring \<Rightarrow> 'k state \<Rightarrow> (error + mediaItem) \<times> 'k state" where
  "processFile B f categoryId s =
     (let isImage = isValidImage f;
          isVideo = isValidVideo f
      in if \<not> isImage \<and> \<not> isVideo then (Inl UnsupportedFileType, s)
         else
           (let ty = (if isImage then Image else Video)
            in case extractMetadata B ty f of
                 Inl e \<Rightarrow> (Inl e, s)
               | Inr metadata \<Rightarrow>
                   (case generateThumbnail B ty f of
                      Inl e \<Rightarrow> (Inl e, s)
                    | Inr thumbnailBlob \<Rightarrow>
                        (case encryptBlob B thumbnailBlob s of
                           (Inl e, s1) \<Rightarrow> (Inl e, s1)
                         | (Inr encryptedThumbnail, s1) \<Rightarrow>
                             (case encryptBlob B (file_bytes f) s1 of
                                (Inl e, s2) \<Rightarrow> (Inl e, s2)
                              | (Inr encryptedFile, s2) \<Rightarrow>
                                  (let (uuid, s3) = generateUUID s2;
                                       mediaItem =
                                         \<lparr>mi_id = uuid,
                                          mi_categoryId = categoryId,
                                          mi_type = ty,
                                          mi_fileName = md_fileName metadata,
                                          mi_fileSize = md_size metadata,
                                          mi_width = md_width metadata,
                                          mi_height = md_height metadata,
                                          mi_duration = (case md_duration metadata of
                                                           None \<Rightarrow> 0 | Some d \<Rightarrow> d),
                                          mi_thumbnailData = fst encryptedThumbnail,
                                          mi_thumbnailIv = snd encryptedThumbnail,
                                          mi_fileData = fst encryptedFile,
                                          mi_fileIv = snd encryptedFile,
                                          mi_mimeType = file_type f,
                                          mi_aiTags = [],
                                          mi_aiPrompt = [],
                                          mi_aiModel = [],
                                          mi_aiResponse = None,
                                          mi_lastTagged = None,
                                          mi_createdAt = now s3,
                                          mi_deletedOriginal = False\<rparr>
                                   in case addMediaItem mediaItem s3 of
                                        (Inl e, s4) \<Rightarrow> (Inl e, s4)
                                      | (Inr _, s4) \<Rightarrow> (Inr mediaItem, s4)))))))"

text \<open>
  One entry of the array returned by \<^verbatim>\<open>importFiles\<close>:
  \<^verbatim>\<open>{success: true, item, fileName}\<close> or \<^verbatim>\<open>{success: false, error, fileName}\<close>.
\<close>

datatype importResult = Imported mediaItem jsstring | NotImported error jsstring

fun success :: "importResult \<Rightarrow> bool" where
  "success (Imported item fileName) = True"
| "success (NotImported e fileName) = False"

fun fileName :: "importResult \<Rightarrow> jsstring" where
  "fileName (Imported item n) = n"
| "fileName (NotImported e n) = n"

text \<open>
  The loop of \<^verbatim>\<open>importFiles\<close> from index \<open>i\<close> on. \<open>callback\<close> tells whether a progress
  callback was passed; its calls are recorded in \<open>progress\<close>.
\<close>

fun importFiles_loop ::
  "'k browser \<Rightarrow> rawFile list \<Rightarrow> jsstring \<Rightarrow> bool \<Rightarrow> nat \<Rightarrow> nat \<Rightarrow> importResult list \<Rightarrow> 'k state
     \<Rightarrow> importResult list \<times> 'k state" where
  "importFiles_loop B [] categoryId callback i totalFiles results s = (results, s)"
| "importFiles_loop B (f # fs) categoryId callback i totalFiles results s =
     (let s1 = (if callback then s\<lparr>progress := progress s @ [(i + 1, totalFiles, file_name f)]\<rparr>
                else s)
      in case processFile B f categoryId s1 of
           (Inr mediaItem, s2) \<Rightarrow>
             importFiles_loop B fs categoryId callback (i + 1) totalFiles
               (results @ [Imported mediaItem (file_name f)]) s2
         | (Inl e, s2) \<Rightarrow>
             importFiles_loop B fs categoryId callback (i + 1) totalFiles
               (results @ [NotImported e (file_name f)]) s2)"

definition importFiles ::
  "'k browser \<Rightarrow> rawFile list \<Rightarrow> jsstring \<Rightarrow> bool \<Rightarrow> 'k state \<Rightarrow> importResult list \<times> 'k state" where
  "importFiles B files categoryId callback s =
     importFiles_loop B files categoryId callback 0 (length files) [] s"

subsection \<open>AIAPIClient.saveConfig\<close>

text \<open>
  The configuration object passed by the caller; \<^verbatim>\<open>id\<close> and \<^verbatim>\<open>name\<close> may be missing.
\<close>

record configInput =
  in_id :: "jsstring option"
  in_name :: "jsstring option"
  in_apiUrl :: jsstring
  in_apiKey :: jsstring
  in_model :: jsstring
  in_defaultPrompt :: "jsstring option"

text \<open>\<^verbatim>\<open>value || fallback\<close> for a string that may be missing: a missing or empty string is falsy.\<close>

definition orDefault :: "jsstring option \<Rightarrow> jsstring \<Rightarrow> jsstring" where
  "orDefault v fallback =
     (case v of None \<Rightarrow> fallback | Some str \<Rightarrow> if str \<noteq> [] then str else fallback)"

text \<open>\<^verbatim>\<open>config.id || this.generateUUID()\<close>: the UUID is generated only when the id is falsy.\<close>

definition idOrGenerated :: "jsstring option \<Rightarrow> 'k state \<Rightarrow> jsstring \<times> 'k state" where
  "idOrGenerated v s =
     (case v of
        None \<Rightarrow> generateUUID s
      | Some str \<Rightarrow> if str \<noteq> [] then (str, s) else generateUUID s)"

text \<open>
  The loop over the configurations read by \<^verbatim>\<open>getAllAIConfigs\<close>: every configuration with
  another id is written back with \<^verbatim>\<open>isActive = false\<close>.
\<close>

fun deactivateOthers :: "jsstring \<Rightarrow> aiConfig list \<Rightarrow> 'k state \<Rightarrow> (error + unit) \<times> 'k state" where
  "deactivateOthers ident [] s = (Inr (), s)"
| "deactivateOthers ident (oldConfig # rest) s =
     (if cfg_id oldConfig \<noteq> ident then
        (case updateAIConfig (oldConfig\<lparr>cfg_isActive := False\<rparr>) s of
           (Inl e, s1) \<Rightarrow> (Inl e, s1)
         | (Inr _, s1) \<Rightarrow> deactivateOthers ident rest s1)
      else deactivateOthers ident rest s)"

definition saveConfig :: "'k browser \<Rightarrow> configInput \<Rightarrow> 'k state \<Rightarrow> (error + aiConfig) \<times> 'k state" where
  "saveConfig B config s =
     (case encryptString B (in_apiKey config) s of
        (Inl e, s1) \<Rightarrow> (Inl e, s1)
      | (Inr (encrypted, iv), s1) \<Rightarrow>
          (let (ident, s2) = idOrGenerated (in_id config) s1;
               configData =
                 \<lparr>cfg_id = ident,
                  cfg_name = orDefault (in_name config) (js ''Default Config''),
                  cfg_apiUrl = in_apiUrl config,
                  cfg_apiKeyEncrypted = encrypted,
                  cfg_apiKeyIv = iv,
                  cfg_model = in_model config,
                  cfg_defaultPrompt = orDefault (in_defaultPrompt config) (defaultPrompt s2),
                  cfg_isActive = True,
                  cfg_lastTested = now s2\<rparr>;
               allConfigs = getAllAIConfigs s2
           in case deactivateOthers ident allConfigs s2 of
                (Inl e, s3) \<Rightarrow> (Inl e, s3)
              | (Inr _, s3) \<Rightarrow>
                  (case (case getAIConfig ident s3 of
                           Some existingConfig \<Rightarrow> updateAIConfig configData s3
                         | None \<Rightarrow> addAIConfig configData s3) of
                     (Inl e, s4) \<Rightarrow> (Inl e, s4)
                   | (Inr _, s4) \<Rightarrow>
                       (Inr configData,
                        s4\<lparr>apiUrl := in_apiUrl config,
                           apiKey := in_apiKey config,
                           model := in_model config,
                           defaultPrompt := orDefault (in_defaultPrompt config)
                                              (defaultPrompt s4)\<rparr>))))"

subsection \<open>CategoryManager.deleteCategory\<close>

text \<open>The loop over the items of the category: each is written back with the new category id.\<close>

fun reassignItems :: "mediaItem list \<Rightarrow> 'k state \<Rightarrow> (error + unit) \<times> 'k state" where
  "reassignItems [] s = (Inr (), s)"
| "reassignItems (item # items) s =
     (case updateMediaItem (item\<lparr>mi_categoryId := js ''uncategorized''\<rparr>) s of
        (Inl e, s1) \<Rightarrow> (Inl e, s1)
      | (Inr _, s1) \<Rightarrow> reassignItems items s1)"

definition loadCategories :: "'k state \<Rightarrow> 'k state" where
  "loadCategories s = s\<lparr>cm_categories := getAllCategories s\<rparr>"

definition setActiveCategory :: "jsstring \<Rightarrow> 'k state \<Rightarrow> 'k state" where
  "setActiveCategory categoryId s = s\<lparr>activeCategory := categoryId\<rparr>"

text \<open>
  \<open>confirmed\<close> is the answer to the \<^verbatim>\<open>confirm\<close> dialog. The result is the error shown by
  \<^verbatim>\<open>alert\<close> in the \<^verbatim>\<open>catch\<close> block, if any, and the new state.
\<close>

definition deleteCategory :: "bool \<Rightarrow> jsstring \<Rightarrow> 'k state \<Rightarrow> error option \<times> 'k state" where
  "deleteCategory confirmed categoryId s =
     (if \<not> confirmed then (None, s)
      else
        (let items = getMediaItemsByCategory categoryId s
         in case reassignItems items s of
              (Inl e, s1) \<Rightarrow> (Some e, s1)
            | (Inr _, s1) \<Rightarrow>
                (let s2 = db_deleteCategory categoryId s1;
                     s3 = loadCategories s2
                 in if activeCategory s3 = categoryId
                    then (None, setActiveCategory (js ''all'') s3)
                    else (None, s3))))"

subsection \<open>A browser and states to run the model on\<close>

text \<open>
  A small browser for running the definitions on concrete inputs: keys are byte
  sequences, the derived key is the password followed by the salt, a ciphertext is the
  key, the iv and the plaintext in a row, strings of byte-sized characters are their own
  base64 form, and the two fields of the verifier are joined by a vertical bar.
\<close>

definition test_browser :: "bytes browser" where
  "test_browser =
     \<lparr>utf8_encode = map ucast,
      utf8_decode = map ucast,
      pbkdf2 = (\<lambda>h slt iterations password bits. password @ slt),
      aes_gcm_encrypt = (\<lambda>key iv plain. key @ iv @ plain),
      aes_gcm_decrypt = (\<lambda>key iv cipher.
         if take (length key + length iv) cipher = key @ iv
         then Some (drop (length key + length iv) cipher) else None),
      btoa = (\<lambda>binary. binary),
      atob = (\<lambda>base64. if filter (\<lambda>c. 0xFF < c) base64 = [] then Some base64 else None),
      json_stringify = (\<lambda>encrypted iv. encrypted @ [0x7C] @ iv),
      json_parse = (\<lambda>text.
         if 0x7C \<in> set text
         then Some (takeWhile (\<lambda>c. c \<noteq> 0x7C) text, tl (dropWhile (\<lambda>c. c \<noteq> 0x7C) text))
         else None),
      decode_media = (\<lambda>ty f. if file_bytes f = [] then None
                              else Some (640, 480, if ty = Video then Some 12 else None)),
      render_thumbnail = (\<lambda>ty f. if file_bytes f = [] then Inl (MediaError ''Failed to load image for thumbnail'')
                                  else Inr (take 2 (file_bytes f)))\<rparr>"

text \<open>
  A second browser, for the path from \<^verbatim>\<open>setupPassword\<close> to \<^verbatim>\<open>verifyPassword\<close>. Its PBKDF2
  prepares the password as HMAC prepares its key: a password shorter than the 64-byte
  block of SHA-256 is filled up with zero bytes; the derived key is that block followed
  by the salt. Its JSON text is every character of \<^verbatim>\<open>encrypted\<close> behind a mark 1, then a
  0, then \<^verbatim>\<open>iv\<close>, so that every pair of strings is read back as written.
\<close>

fun toy_parse :: "jsstring \<Rightarrow> (jsstring \<times> jsstring) option" where
  "toy_parse [] = None"
| "toy_parse [c] = (if c = 0 then Some ([], []) else None)"
| "toy_parse (c # d # rest) =
     (if c = 0 then Some ([], d # rest)
      else (case toy_parse rest of
              None \<Rightarrow> None
            | Some (encrypted, iv) \<Rightarrow> Some (d # encrypted, iv)))"

definition toy_stringify :: "jsstring \<Rightarrow> jsstring \<Rightarrow> jsstring" where
  "toy_stringify encrypted iv = concat (map (\<lambda>c. [1, c]) encrypted) @ [0] @ iv"

definition padding_browser :: "bytes browser" where
  "padding_browser = test_browser
     \<lparr>pbkdf2 := (\<lambda>h slt iterations password bits.
         password @ replicate (64 - length password) 0 @ slt),
      json_stringify := toy_stringify,
      json_parse := toy_parse\<rparr>"

text \<open>A locked vault without password, with empty stores.\<close>

definition fresh_state :: "bytes state" where
  "fresh_state =
     \<lparr>masterKey = None, salt = None, localStorage = Map.empty,
      cryptoRandom = (\<lambda>i. of_nat i), mathRandom = (\<lambda>i. i), now = 1700000000000,
      categories = [], mediaItems = [], aiConfigs = [],
      apiUrl = [], apiKey = [], model = js ''gpt-4o'', defaultPrompt = js ''describe'',
      cm_categories = [], activeCategory = js ''all'', progress = []\<rparr>"

subsection \<open>Notions used to state the properties\<close>

text \<open>
  The salt a KeyManager works with: the one it holds, else the one read from
  \<^verbatim>\<open>localStorage\<close>; \<open>None\<close> when no salt has been persisted or the stored one does not
  decode.
\<close>

definition persistedSalt :: "'k browser \<Rightarrow> 'k state \<Rightarrow> bytes option" where
  "persistedSalt B s =
     (case salt s of
        Some slt \<Rightarrow> Some slt
      | None \<Rightarrow>
          (case localStorage s ''app_salt'' of
             None \<Rightarrow> None
           | Some stored \<Rightarrow>
               if stored = [] then None
               else (case base64ToBuffer B stored of Inl e \<Rightarrow> None | Inr buf \<Rightarrow> Some buf)))"

text \<open>
  \<^verbatim>\<open>initializeSalt\<close> cannot throw: a salt is held, or none is stored, or the stored one is
  accepted by \<^verbatim>\<open>atob\<close> (as is everything \<^verbatim>\<open>bufferToBase64\<close> has written).
\<close>

definition saltReadable :: "'k browser \<Rightarrow> 'k state \<Rightarrow> bool" where
  "saltReadable B s =
     (case salt s of
        Some slt \<Rightarrow> True
      | None \<Rightarrow>
          (case localStorage s ''app_salt'' of
             None \<Rightarrow> True
           | Some stored \<Rightarrow>
               if stored = [] then True
               else (case atob B stored of None \<Rightarrow> False | Some binary \<Rightarrow> True)))"

text \<open>
  What is known of the browser between \<^verbatim>\<open>setupPassword\<close> and \<^verbatim>\<open>verifyPassword\<close>: \<^verbatim>\<open>atob\<close>
  reads back what \<^verbatim>\<open>btoa\<close> made of a string of bytes, which is not empty unless the
  bytes are; \<^verbatim>\<open>JSON.parse\<close> reads back the two fields that \<^verbatim>\<open>JSON.stringify\<close> wrote, and
  the text is not empty; AES-GCM decrypts with key and iv what it encrypted with them;
  the bytes of \<^verbatim>\<open>PASSWORD_CORRECT\<close> decode to that text.
\<close>

definition reads_back :: "'k browser \<Rightarrow> bool" where
  "reads_back B \<longleftrightarrow>
     (\<forall>x::bytes. atob B (btoa B (map ucast x)) = Some (map ucast x))
   \<and> (\<forall>x::bytes. x \<noteq> [] \<longrightarrow> btoa B (map ucast x) \<noteq> [])
   \<and> (\<forall>encrypted iv. json_parse B (json_stringify B encrypted iv) = Some (encrypted, iv)
         \<and> json_stringify B encrypted iv \<noteq> [])
   \<and> (\<forall>key iv plain. aes_gcm_decrypt B key iv (aes_gcm_encrypt B key iv plain) = Some plain)
   \<and> utf8_decode B (utf8_encode B (js ''PASSWORD_CORRECT'')) = js ''PASSWORD_CORRECT''"

text \<open>
  What \<^verbatim>\<open>setupPassword\<close> is to work with, read off the state it starts in: the salt is
  the stored one when a non-empty salt is stored, else the next 16 random bytes; the iv
  of the verifier is the next 12 random bytes after that; the verifier is the AES-GCM
  ciphertext of \<^verbatim>\<open>PASSWORD_CORRECT\<close> under the PBKDF2 key of the password.
\<close>

definition setup_salt :: "'k browser \<Rightarrow> 'k state \<Rightarrow> bytes" where
  "setup_salt B s =
     (case localStorage s ''app_salt'' of
        None \<Rightarrow> map (cryptoRandom s) [0..<16]
      | Some stored \<Rightarrow>
          if stored = [] then map (cryptoRandom s) [0..<16]
          else (case atob B stored of None \<Rightarrow> [] | Some binary \<Rightarrow> map ucast binary))"

definition setup_iv :: "'k state \<Rightarrow> bytes" where
  "setup_iv s =
     (if truthy (localStorage s ''app_salt'') then map (cryptoRandom s) [0..<12]
      else map (cryptoRandom s) [16..<28])"

definition setup_verifier :: "'k browser \<Rightarrow> jsstring \<Rightarrow> 'k state \<Rightarrow> bytes" where
  "setup_verifier B password s =
     aes_gcm_encrypt B (pbkdf2 B SHA_256 (setup_salt B s) 100000 (utf8_encode B password) 256)
       (setup_iv s) (utf8_encode B (js ''PASSWORD_CORRECT''))"

text \<open>
  The page opened again after \<^verbatim>\<open>setupPassword('pw')\<close> in the second browser: a new
  KeyManager, with what the set-up left in \<^verbatim>\<open>localStorage\<close>.
\<close>

definition reopened :: "bytes state" where
  "reopened = fresh_state\<lparr>localStorage :=
      localStorage (snd (setupPassword padding_browser (js ''pw'') fresh_state))\<rparr>"

text \<open>
  A locked vault set up with the password \<^verbatim>\<open>pw\<close> in the browser above: salt 1, 2, 3 and
  the verifier encrypted with iv 9.
\<close>

definition vault_state :: "bytes state" where
  "vault_state = fresh_state\<lparr>localStorage :=
      [''app_salt'' \<mapsto> [1, 2, 3],
       ''password_test'' \<mapsto> js ''pw'' @ [1, 2, 3] @ [9] @ js ''PASSWORD_CORRECT'' @ [0x7C] @ [9]]\<rparr>"

text \<open>
  The batch import in the words of the specification: the files are imported one after
  the other, each in the state the previous one left, and every file contributes one
  result, a success with the item or a failure with the error.
\<close>

fun importBatch_spec ::
  "'k browser \<Rightarrow> rawFile list \<Rightarrow> jsstring \<Rightarrow> 'k state \<Rightarrow> importResult list \<times> 'k state" where
  "importBatch_spec B [] categoryId s = ([], s)"
| "importBatch_spec B (f # fs) categoryId s =
     (case processFile B f categoryId s of
        (r, s1) \<Rightarrow>
          (case importBatch_spec B fs categoryId s1 of
             (rs, s2) \<Rightarrow>
               ((case r of
                   Inr item \<Rightarrow> Imported item (file_name f)
                 | Inl e \<Rightarrow> NotImported e (file_name f)) # rs, s2)))"

text \<open>
  The identifier that \<^verbatim>\<open>generateUUID\<close> is to produce, written out position by position
  from the numbers \<open>r 0\<close>, \<open>r 1\<close>, ... drawn from \<^verbatim>\<open>Math.random() * 16 | 0\<close>: eight, four,
  three, three and twelve lower-case hexadecimal digits of the draws in order, separated
  by hyphens, with the version digit 4 before the third group and one of 8, 9, a, b
  (from the sixteenth draw) before the fourth.
\<close>

definition spec_hex :: "nat \<Rightarrow> jschar" where
  "spec_hex v = of_char (''0123456789abcdef'' ! v)"

definition uuid_v4 :: "(nat \<Rightarrow> nat) \<Rightarrow> jsstring" where
  "uuid_v4 r =
     map (\<lambda>k. spec_hex (r k mod 16)) [0, 1, 2, 3, 4, 5, 6, 7] @ [0x2D]
     @ map (\<lambda>k. spec_hex (r k mod 16)) [8, 9, 10, 11] @ [0x2D, 0x34]
     @ map (\<lambda>k. spec_hex (r k mod 16)) [12, 13, 14] @ [0x2D]
     @ [of_char (''89ab'' ! (r 15 mod 4))]
     @ map (\<lambda>k. spec_hex (r k mod 16)) [16, 17, 18] @ [0x2D]
     @ map (\<lambda>k. spec_hex (r k mod 16)) [19, 20, 21, 22, 23, 24, 25, 26, 27, 28, 29, 30]"

text \<open>The MIME types accepted as image and as video.\<close>

definition image_types :: "jsstring list" where
  "image_types = map js
     [''image/jpeg'', ''image/jpg'', ''image/png'', ''image/gif'', ''image/webp'']"

definition video_types :: "jsstring list" where
  "video_types = map js
     [''video/mp4'', ''video/webm'', ''video/ogg'', ''video/quicktime'', ''video/x-msvideo'',
      ''video/x-matroska'']"

text \<open>Three files, the second of a type that is neither image nor video, and an unlocked vault.\<close>

definition photo :: rawFile where
  "photo = \<lparr>file_name = js ''a.png'', file_type = js ''image/png'', file_size = 3,
            file_bytes = [7, 8, 9]\<rparr>"

definition memo :: rawFile where
  "memo = \<lparr>file_name = js ''b.txt'', file_type = js ''text/plain'', file_size = 2,
            file_bytes = [5, 6]\<rparr>"

definition clip :: rawFile where
  "clip = \<lparr>file_name = js ''c.mp4'', file_type = js ''video/mp4'', file_size = 4,
           file_bytes = [1, 2, 3, 4]\<rparr>"

definition open_state :: "bytes state" where
  "open_state = fresh_state\<lparr>masterKey := Some [42]\<rparr>"

text \<open>The two record updates made by the loops of \<^verbatim>\<open>deleteCategory\<close> and \<^verbatim>\<open>saveConfig\<close>.\<close>

definition uncategorize :: "mediaItem \<Rightarrow> mediaItem" where
  "uncategorize item = item\<lparr>mi_categoryId := js ''uncategorized''\<rparr>"

definition deactivate :: "aiConfig \<Rightarrow> aiConfig" where
  "deactivate config = config\<lparr>cfg_isActive := False\<rparr>"

text \<open>
  A library of three tagged items in two categories, and a vault with one active
  configuration \<open>A\<close> into which a configuration \<open>B\<close> is saved.
\<close>

definition stored_item :: "jsstring \<Rightarrow> jsstring \<Rightarrow> mediaItem" where
  "stored_item ident categoryId =
     \<lparr>mi_id = ident, mi_categoryId = categoryId, mi_type = Image, mi_fileName = js ''a.png'',
      mi_fileSize = 3, mi_width = 640, mi_height = 480, mi_duration = 0,
      mi_thumbnailData = [42, 0, 7, 8], mi_thumbnailIv = [0], mi_fileData = [42, 1, 7, 8, 9],
      mi_fileIv = [1], mi_mimeType = js ''image/png'', mi_aiTags = [js ''cat''],
      mi_aiPrompt = js ''describe'', mi_aiModel = js ''gpt-4o'', mi_aiResponse = Some (js ''cat''),
      mi_lastTagged = Some 1700000000001, mi_createdAt = 1700000000000,
      mi_deletedOriginal = False\<rparr>"

definition stored_category :: "jsstring \<Rightarrow> jsstring \<Rightarrow> category" where
  "stored_category ident name =
     \<lparr>cat_id = ident, cat_name = name, cat_description = [], cat_color = js ''#3498db'',
      cat_createdAt = 1700000000000\<rparr>"

definition library_state :: "bytes state" where
  "library_state = open_state
     \<lparr>categories := [stored_category (js ''c1'') (js ''cats''), stored_category (js ''c2'') (js ''dogs'')],
      mediaItems := [stored_item (js ''1'') (js ''c1''), stored_item (js ''2'') (js ''c2''),
                     stored_item (js ''3'') (js ''c1'')],
      activeCategory := js ''c1''\<rparr>"

definition first_config :: aiConfig where
  "first_config =
     \<lparr>cfg_id = js ''A'', cfg_name = js ''first'', cfg_apiUrl = js ''https://a.example/v1'',
      cfg_apiKeyEncrypted = [42, 0, 1], cfg_apiKeyIv = [0], cfg_model = js ''gpt-4o'',
      cfg_defaultPrompt = js ''describe'', cfg_isActive = True, cfg_lastTested = 1700000000000\<rparr>"

definition second_input :: configInput where
  "second_input =
     \<lparr>in_id = Some (js ''B''), in_name = Some (js ''second''), in_apiUrl = js ''https://b.example/v1'',
      in_apiKey = js ''sk'', in_model = js ''gpt-4o'', in_defaultPrompt = Some []\<rparr>"

definition configured_state :: "bytes state" where
  "configured_state = open_state\<lparr>aiConfigs := [first_config]\<rparr>"

text \<open>A configuration with a new id and the name of the stored one.\<close>

definition same_name_input :: configInput where
  "same_name_input =
     \<lparr>in_id = Some (js ''B''), in_name = Some (js ''first''), in_apiUrl = js ''https://b.example/v1'',
      in_apiKey = js ''sk'', in_model = js ''gpt-4o'', in_defaultPrompt = None\<rparr>"

subsection \<open>Properties of tag extraction\<close>

lemma removeBullet_spec: "removeBullet s = spec_strip_bullet s"
  by (cases s) (simp_all add: spec_strip_bullet_def isBullet_def)

lemma removeNumbered_spec: "removeNumbered s = spec_strip_number s"
proof -
  define n where "n = length (takeWhile isDigit s)"
  have rest: "dropWhile isDigit s = drop n s"
    by (simp add: n_def dropWhile_eq_drop)
  have digits: "takeWhile isDigit s = [] \<longleftrightarrow> n = 0"
    by (simp add: n_def)
  have pred: "(\<lambda>c. 0x30 \<le> c \<and> c \<le> 0x39) = isDigit"
    by (rule ext) (simp add: isDigit_def)
  show ?thesis
  proof (cases "n < length s")
    case True
    then have "drop n s = s ! n # drop (Suc n) s"
      by (simp add: Cons_nth_drop_Suc)
    then show ?thesis
      using True by (simp add: removeNumbered_def spec_strip_number_def pred rest digits
          n_def [symmetric] Let_def)
  next
    case False
    then have "drop n s = []" by simp
    then show ?thesis
      using False by (simp add: removeNumbered_def spec_strip_number_def pred rest digits
          n_def [symmetric] Let_def)
  qed
qed

lemma extractTags_loop_filter:
  "extractTags_loop lines tags =
     tags @ filter (\<lambda>t. 2 < length t \<and> length t < 100) (map cleanLine lines)"
  by (induction lines arbitrary: tags) (simp_all add: Let_def)

lemma spec_fragments_nonempty: "spec_fragments s \<noteq> []"
  by (cases s) (simp_all add: spec_fragments_def split: list.split)

lemma split_chars_piece:
  "split_chars isTagSeparator piece s =
     (piece @ hd (spec_fragments s)) # tl (spec_fragments s)"
proof (induction s arbitrary: piece)
  case Nil
  show ?case by (simp add: spec_fragments_def)
next
  case (Cons c cs)
  have ne: "spec_fragments cs \<noteq> []" by (rule spec_fragments_nonempty)
  then obtain f fs where fs: "spec_fragments cs = f # fs" by (cases "spec_fragments cs") auto
  have unfold: "spec_fragments (c # cs) =
      (if c = 0x2C \<or> c = 0x3B \<or> c = 0x0A then [] # spec_fragments cs
       else (c # f) # fs)"
    using fs by (simp add: spec_fragments_def)
  show ?case
  proof (cases "isTagSeparator c")
    case True
    then show ?thesis
      using Cons.IH [of "[]"] fs unfold by (auto simp: isTagSeparator_def)
  next
    case False
    then show ?thesis
      using Cons.IH [of "piece @ [c]"] fs unfold by (auto simp: isTagSeparator_def)
  qed
qed

lemma split_chars_spec: "split_chars isTagSeparator [] s = spec_fragments s"
  using split_chars_piece [of "[]" s] spec_fragments_nonempty [of s] by simp

text \<open>
  Claim C3, as the code has it. For every response string, tag extraction returns the
  first ten, in their order, of the cleaned fragments that are longer than 2 and
  shorter than 100 characters, where the fragments are the pieces between commas,
  semicolons and newlines and cleaning trims a fragment, removes a single leading
  bullet and then, from what is left, a leading number with its full stop (each with
  the white space after it), and cuts the rest to 50 characters; the response
  "cat, a dog, - bird, 1. fish, x" gives the tags cat, a dog, bird, fish.
\<close>

theorem extractTags_rule:
  "extractTags response = both_markers_tags response
   \<and> extractTags (js ''cat, a dog, - bird, 1. fish, x'')
       = [js ''cat'', js ''a dog'', js ''bird'', js ''fish'']"
proof
  have clean: "cleanLine = (\<lambda>f. take 50 (both_markers (trim f)))"
    by (rule ext)
      (simp add: cleanLine_def both_markers_def removeBullet_spec removeNumbered_spec)
  show "extractTags response = both_markers_tags response"
    by (simp add: extractTags_def both_markers_tags_def extractTags_loop_filter
        split_chars_spec clean)
  show "extractTags (js ''cat, a dog, - bird, 1. fish, x'')
       = [js ''cat'', js ''a dog'', js ''bird'', js ''fish'']"
    by (simp add: extractTags_def js_def isTagSeparator_def cleanLine_def trim_def
        isWhiteSpace_def isBullet_def removeNumbered_def isDigit_def)
qed

text \<open>
  Claim C3 as stated removes one marker, a bullet or a number. On the response
  "- 1. fish" that rule keeps the tag "1. fish"; the code, with its two replacements in
  a row, returns "fish". On the example of the specification the two rules agree.
\<close>

theorem extractTags_one_marker_counterexample:
  "extractTags (js ''- 1. fish'') = [js ''fish'']
   \<and> spec_tags (js ''- 1. fish'') = [js ''1. fish'']
   \<and> spec_tags (js ''cat, a dog, - bird, 1. fish, x'')
       = [js ''cat'', js ''a dog'', js ''bird'', js ''fish'']"
  by (simp add: extractTags_def js_def isTagSeparator_def cleanLine_def trim_def
      isWhiteSpace_def isBullet_def removeNumbered_def isDigit_def
      spec_tags_def spec_fragments_def spec_strip_marker_def spec_strip_bullet_def
      spec_strip_number_def Let_def)

subsection \<open>Properties of the KeyManager\<close>

lemma deriveKey_persisted:
  assumes "persistedSalt B s = Some slt"
  shows "deriveKey B P s =
    (Inr (pbkdf2 B SHA_256 slt 100000 (utf8_encode B P) 256),
     s\<lparr>salt := Some slt, masterKey := Some (pbkdf2 B SHA_256 slt 100000 (utf8_encode B P) 256)\<rparr>)"
  using assms
  by (auto simp: persistedSalt_def deriveKey_def initializeSalt_def Let_def
      split: option.splits if_splits sum.splits)

lemma deriveKey_result:
  "deriveKey B P s = (Inr key, s') \<Longrightarrow> masterKey s' = Some key"
  by (auto simp: deriveKey_def Let_def split: prod.splits sum.splits option.splits if_splits)

lemma deriveKey_readable:
  assumes "saltReadable B s"
  shows "\<exists>key s'. deriveKey B P s = (Inr key, s')"
  using assms
  by (auto simp: saltReadable_def deriveKey_def initializeSalt_def base64ToBuffer_def
      getRandomValues_def Let_def split: option.splits if_splits sum.splits)

lemma verifyPassword_state:
  assumes "localStorage s ''password_test'' = Some testData" and "testData \<noteq> []"
  shows "snd (verifyPassword B P s) = snd (deriveKey B P s)"
  using assms
  by (simp add: verifyPassword_def split: prod.splits sum.splits option.splits)

text \<open>
  Claim C5. With a persisted salt, \<^verbatim>\<open>deriveKey(P)\<close> returns the key that PBKDF2 with
  HMAC-SHA-256 computes from the UTF-8 bytes of \<open>P\<close>, that salt, 100000 iterations
  and a length of 256 bits. The key depends on the password and the salt only: any
  two states with the same salt give the same key, and so does a second call.
\<close>

theorem deriveKey_deterministic:
  assumes "persistedSalt B s = Some slt" and "persistedSalt B s' = Some slt"
  shows "fst (deriveKey B P s) = Inr (pbkdf2 B SHA_256 slt 100000 (utf8_encode B P) 256)
       \<and> fst (deriveKey B P s') = fst (deriveKey B P s)
       \<and> fst (deriveKey B P (snd (deriveKey B P s))) = fst (deriveKey B P s)"
proof -
  have again: "persistedSalt B (snd (deriveKey B P s)) = Some slt"
    using assms(1) by (simp add: deriveKey_persisted persistedSalt_def)
  show ?thesis
    using assms again by (simp add: deriveKey_persisted)
qed

lemma vault_salt: "persistedSalt test_browser vault_state = Some [1, 2, 3]"
  by (simp add: persistedSalt_def vault_state_def fresh_state_def base64ToBuffer_def test_browser_def)

theorem deriveKey_deterministic_witness:
  "fst (deriveKey test_browser (js ''pw'') vault_state) = Inr [0x70, 0x77, 1, 2, 3]
   \<and> fst (deriveKey test_browser (js ''pw'') (vault_state\<lparr>salt := Some [1, 2, 3], now := 5\<rparr>))
       = fst (deriveKey test_browser (js ''pw'') vault_state)"
proof -
  have a: "persistedSalt test_browser vault_state = Some [1, 2, 3]"
    by (rule vault_salt)
  have b: "persistedSalt test_browser (vault_state\<lparr>salt := Some [1, 2, 3], now := 5\<rparr>) = Some [1, 2, 3]"
    by (simp add: persistedSalt_def)
  show ?thesis
    using deriveKey_deterministic [OF a b, of "js ''pw''"]
    by (simp add: test_browser_def js_def)
qed

text \<open>
  Claim C10. When a PasswordVerifier record exists (and the salt can be read),
  \<^verbatim>\<open>verifyPassword(P)\<close> leaves the key derived from \<open>P\<close> in \<^verbatim>\<open>masterKey\<close>, whatever it
  returns: afterwards \<^verbatim>\<open>isUnlocked()\<close> is true and \<^verbatim>\<open>getMasterKey()\<close> returns that key.
\<close>

theorem verifyPassword_unlocks:
  assumes "localStorage s ''password_test'' = Some testData" and "testData \<noteq> []"
    and "saltReadable B s"
  shows "\<exists>key. fst (deriveKey B P s) = Inr key
           \<and> masterKey (snd (verifyPassword B P s)) = Some key
           \<and> isUnlocked (snd (verifyPassword B P s))
           \<and> getMasterKey (snd (verifyPassword B P s)) = Inr key"
proof -
  obtain key s' where d: "deriveKey B P s = (Inr key, s')"
    using deriveKey_readable [OF assms(3)] by blast
  have "masterKey s' = Some key"
    using d by (rule deriveKey_result)
  moreover have "snd (verifyPassword B P s) = s'"
    using verifyPassword_state [OF assms(1,2)] d by simp
  ultimately show ?thesis
    using d by (simp add: isUnlocked_def getMasterKey_def)
qed

lemma vault_readable: "saltReadable test_browser vault_state"
  by (simp add: saltReadable_def vault_state_def fresh_state_def test_browser_def)

lemma vault_verifier: "localStorage vault_state ''password_test''
   = Some (js ''pw'' @ [1, 2, 3] @ [9] @ js ''PASSWORD_CORRECT'' @ [0x7C] @ [9])"
  by (simp add: vault_state_def fresh_state_def)

lemma vault_wrong: "fst (verifyPassword test_browser (js ''pv'') vault_state) = False"
  by (simp add: verifyPassword_def vault_state_def fresh_state_def base64ToBuffer_def test_browser_def
     deriveKey_def initializeSalt_def js_def Let_def)

theorem verifyPassword_unlocks_witness:
  "fst (verifyPassword test_browser (js ''pv'') vault_state) = False
   \<and> \<not> isUnlocked vault_state
   \<and> isUnlocked (snd (verifyPassword test_browser (js ''pv'') vault_state))
   \<and> getMasterKey (snd (verifyPassword test_browser (js ''pv'') vault_state)) = Inr [0x70, 0x76, 1, 2, 3]"
proof -
  have ne: "js ''pw'' @ [1, 2, 3] @ [9] @ js ''PASSWORD_CORRECT'' @ [0x7C] @ [9] \<noteq> ([]::jsstring)"
    by (simp add: js_def)
  have k: "fst (deriveKey test_browser (js ''pv'') vault_state) = Inr [0x70, 0x76, 1, 2, 3]"
    unfolding deriveKey_persisted [OF vault_salt] by (simp add: test_browser_def js_def)
  have l: "\<not> isUnlocked vault_state"
    by (simp add: isUnlocked_def vault_state_def fresh_state_def)
  show ?thesis
    using verifyPassword_unlocks [OF vault_verifier ne vault_readable, of "js ''pv''"] k l vault_wrong
    by auto
qed

text \<open>
  Claim C4, as the code has it. When a salt is persisted, \<^verbatim>\<open>setupPassword(P)\<close> does not
  fail: it returns true, keeps the persisted salt, holds the key derived from \<open>P\<close>
  with that salt and stores a new PasswordVerifier, the encryption of
  \<^verbatim>\<open>PASSWORD_CORRECT\<close> under that key with the next 12 random bytes as iv.
\<close>

theorem setupPassword_reuses_salt:
  assumes "localStorage s ''app_salt'' = Some stored" and "stored \<noteq> []"
    and "atob B stored = Some binary"
  shows "fst (setupPassword B P s) = Inr True
       \<and> localStorage (snd (setupPassword B P s)) ''app_salt'' = Some stored
       \<and> salt (snd (setupPassword B P s)) = Some (map ucast binary)
       \<and> masterKey (snd (setupPassword B P s))
           = Some (pbkdf2 B SHA_256 (map ucast binary) 100000 (utf8_encode B P) 256)
       \<and> localStorage (snd (setupPassword B P s)) ''password_test''
           = Some (json_stringify B
               (bufferToBase64 B (aes_gcm_encrypt B
                  (pbkdf2 B SHA_256 (map ucast binary) 100000 (utf8_encode B P) 256)
                  (map (cryptoRandom s) [0..<12])
                  (utf8_encode B (js ''PASSWORD_CORRECT''))))
               (bufferToBase64 B (map (cryptoRandom s) [0..<12])))"
  using assms
  by (simp add: setupPassword_def initializeSalt_def base64ToBuffer_def deriveKey_def
      getRandomValues_def Let_def)

text \<open>
  Claim C4 as stated asks for a failure that leaves the verifier alone. On the vault
  set up with \<^verbatim>\<open>pw\<close>, a second \<^verbatim>\<open>setupPassword\<close> returns true and replaces the verifier.
\<close>

theorem setupPassword_twice_counterexample:
  "isPasswordSet vault_state
   \<and> fst (setupPassword test_browser (js ''other'') vault_state) = Inr True
   \<and> localStorage (snd (setupPassword test_browser (js ''other'') vault_state)) ''password_test''
       \<noteq> localStorage vault_state ''password_test''"
  by (simp add: isPasswordSet_def vault_state_def fresh_state_def setupPassword_def
      initializeSalt_def base64ToBuffer_def deriveKey_def getRandomValues_def Let_def
      test_browser_def bufferToBase64_def js_def)

theorem setupPassword_reuses_salt_witness:
  "fst (setupPassword test_browser (js ''other'') vault_state) = Inr True
   \<and> localStorage (snd (setupPassword test_browser (js ''other'') vault_state)) ''app_salt'' = Some [1, 2, 3]
   \<and> salt (snd (setupPassword test_browser (js ''other'') vault_state)) = Some [1, 2, 3]"
proof -
  have a: "localStorage vault_state ''app_salt'' = Some [1, 2, 3]"
    by (simp add: vault_state_def fresh_state_def)
  have b: "[1, 2, 3] \<noteq> ([]::jsstring)" by simp
  have c: "atob test_browser [1, 2, 3] = Some [1, 2, 3]"
    by (simp add: test_browser_def)
  show ?thesis
    using setupPassword_reuses_salt [OF a b c, of "js ''other''"] by simp
qed

subsection \<open>Properties of Encryption\<close>

lemma encryptBlob_locked:
  "masterKey s = None \<Longrightarrow> encryptBlob B blob s = (Inl Locked, s)"
  by (simp add: encryptBlob_def encryptFile_def getMasterKey_def)

lemma encryptBlob_unlocked:
  "masterKey s = Some key \<Longrightarrow> encryptBlob B blob s =
     (Inr (aes_gcm_encrypt B key (map (cryptoRandom s) [0..<12]) blob,
           bufferToBase64 B (map (cryptoRandom s) [0..<12])),
      s\<lparr>cryptoRandom := (\<lambda>i. cryptoRandom s (i + 12))\<rparr>)"
  by (simp add: encryptBlob_def encryptFile_def getMasterKey_def getRandomValues_def)

lemma second_iv: "map (\<lambda>i. (r::nat \<Rightarrow> 8 word) (i + 12)) [0..<12] = map r [12..<24]"
proof -
  have "map (\<lambda>i. r (i + 12)) [0..<12] = map r (map (\<lambda>i. i + 12) [0..<12])"
    by (simp add: comp_def)
  also have "map (\<lambda>i. i + 12) [0..<12] = [12..<24]"
    using map_add_upt [of 12 12] by simp
  finally show ?thesis .
qed

text \<open>
  \<^verbatim>\<open>encryptFile\<close> takes no iv: it draws the next 12 bytes of \<^verbatim>\<open>crypto.getRandomValues\<close>
  and returns them with the ciphertext; two calls in a row use the first and the second
  block of 12 bytes.
\<close>

lemma encryptFile_locked:
  "masterKey s = None \<Longrightarrow> encryptFile B plaintext s = (Inl Locked, s)"
  by (simp add: encryptFile_def getMasterKey_def)

lemma encryptFile_unlocked:
  "masterKey s = Some key \<Longrightarrow> encryptFile B plaintext s =
     (Inr (aes_gcm_encrypt B key (map (cryptoRandom s) [0..<12]) plaintext,
           map (cryptoRandom s) [0..<12]),
      s\<lparr>cryptoRandom := (\<lambda>i. cryptoRandom s (i + 12))\<rparr>)"
  by (simp add: encryptFile_def getMasterKey_def getRandomValues_def)

lemma encryptFile_iv_length:
  "encryptFile B plaintext s = (Inr (ciphertext, iv), s') \<Longrightarrow> length iv = 12"
  by (cases "masterKey s") (auto simp: encryptFile_locked encryptFile_unlocked)

lemma decryptFile_encryptFile:
  assumes cipher: "\<And>key iv m. aes_gcm_decrypt B key iv (aes_gcm_encrypt B key iv m) = Some m"
    and "encryptFile B plaintext s = (Inr (ciphertext, iv), s')"
  shows "decryptFile B ciphertext iv s' = Inr plaintext"
  using assms(2)
  by (cases "masterKey s")
     (auto simp: encryptFile_locked encryptFile_unlocked decryptFile_def getMasterKey_def cipher)

lemma encryptFile_twice:
  assumes "masterKey s = Some key"
  shows "fst (encryptFile B plaintext s)
           = Inr (aes_gcm_encrypt B key (map (cryptoRandom s) [0..<12]) plaintext,
                  map (cryptoRandom s) [0..<12])
       \<and> fst (encryptFile B plaintext (snd (encryptFile B plaintext s)))
           = Inr (aes_gcm_encrypt B key (map (cryptoRandom s) [12..<24]) plaintext,
                  map (cryptoRandom s) [12..<24])"
  using assms by (simp add: encryptFile_unlocked second_iv)

lemma encryptFile_key:
  "masterKey (snd (encryptFile B plaintext s)) = masterKey s"
  by (cases "masterKey s") (simp_all add: encryptFile_locked encryptFile_unlocked)

text \<open>
  Claim C1. Two laws of AES-GCM are assumed of the browser: decryption under the key
  and iv of the encryption returns the plaintext, and for 12-byte ivs the ciphertext
  (which ends in the tag, the masked encryption of the counter block built from the
  iv) determines the iv. The random source is assumed fresh: its second block of 12
  bytes differs from the first. Then, in an unlocked vault, two encryptions of the
  same plaintext use these two blocks as ivs (the caller supplies none), give
  different ciphertexts, and each (ciphertext, iv) pair decrypts to the plaintext
  under the key held.
\<close>

theorem encryptFile_roundtrip:
  assumes cipher: "\<forall>k iv m. aes_gcm_decrypt B k iv (aes_gcm_encrypt B k iv m) = Some m"
    and nonce: "\<forall>k iv iv' m. length iv = 12 \<and> length iv' = 12
                  \<and> aes_gcm_encrypt B k iv m = aes_gcm_encrypt B k iv' m \<longrightarrow> iv = iv'"
    and unlocked: "masterKey s = Some key"
    and fresh: "map (cryptoRandom s) [0..<12] \<noteq> map (cryptoRandom s) [12..<24]"
  shows "\<exists>c1 c2.
      fst (encryptFile B M s) = Inr (c1, map (cryptoRandom s) [0..<12])
    \<and> fst (encryptFile B M (snd (encryptFile B M s))) = Inr (c2, map (cryptoRandom s) [12..<24])
    \<and> c1 \<noteq> c2
    \<and> decryptFile B c1 (map (cryptoRandom s) [0..<12]) (snd (encryptFile B M s)) = Inr M
    \<and> decryptFile B c2 (map (cryptoRandom s) [12..<24])
          (snd (encryptFile B M (snd (encryptFile B M s)))) = Inr M"
proof -
  let ?iv1 = "map (cryptoRandom s) [0..<12]" and ?iv2 = "map (cryptoRandom s) [12..<24]"
  let ?c1 = "aes_gcm_encrypt B key ?iv1 M" and ?c2 = "aes_gcm_encrypt B key ?iv2 M"
  let ?s1 = "snd (encryptFile B M s)"
  let ?s2 = "snd (encryptFile B M ?s1)"
  have two: "fst (encryptFile B M s) = Inr (?c1, ?iv1)
      \<and> fst (encryptFile B M ?s1) = Inr (?c2, ?iv2)"
    by (rule encryptFile_twice [OF unlocked])
  have k1: "masterKey ?s1 = Some key" and k2: "masterKey ?s2 = Some key"
    by (simp_all add: encryptFile_key unlocked)
  have differ: "?c1 \<noteq> ?c2"
  proof
    assume "?c1 = ?c2"
    moreover have "length ?iv1 = 12 \<and> length ?iv2 = 12" by simp
    ultimately have "?iv1 = ?iv2" using nonce by blast
    then show False using fresh by simp
  qed
  have d1: "decryptFile B ?c1 ?iv1 ?s1 = Inr M"
    by (simp add: decryptFile_def getMasterKey_def k1 cipher)
  have d2: "decryptFile B ?c2 ?iv2 ?s2 = Inr M"
    by (simp add: decryptFile_def getMasterKey_def k2 cipher)
  show ?thesis
    using two differ d1 d2 by blast
qed

theorem encryptFile_roundtrip_witness:
  "fst (encryptFile test_browser [7, 8, 9] open_state)
     \<noteq> fst (encryptFile test_browser [7, 8, 9] (snd (encryptFile test_browser [7, 8, 9] open_state)))
   \<and> decryptFile test_browser ([42] @ map of_nat [0..<12] @ [7, 8, 9]) (map of_nat [0..<12])
        (snd (encryptFile test_browser [7, 8, 9] open_state)) = Inr [7, 8, 9]
   \<and> decryptFile test_browser ([42] @ map of_nat [12..<24] @ [7, 8, 9]) (map of_nat [12..<24])
        (snd (encryptFile test_browser [7, 8, 9] (snd (encryptFile test_browser [7, 8, 9] open_state))))
        = Inr [7, 8, 9]"
proof -
  have cipher: "\<forall>k iv m. aes_gcm_decrypt test_browser k iv (aes_gcm_encrypt test_browser k iv m) = Some m"
    by (simp add: test_browser_def)
  have nonce: "\<forall>k iv iv' m. length iv = 12 \<and> length iv' = 12
      \<and> aes_gcm_encrypt test_browser k iv m = aes_gcm_encrypt test_browser k iv' m \<longrightarrow> iv = iv'"
    by (simp add: test_browser_def)
  have unlocked: "masterKey open_state = Some [42]"
    by (simp add: open_state_def)
  have stream: "cryptoRandom open_state = (\<lambda>i. of_nat i)"
    by (simp add: open_state_def fresh_state_def)
  have fresh: "map (cryptoRandom open_state) [0..<12] \<noteq> map (cryptoRandom open_state) [12..<24]"
    unfolding stream by (simp add: upt_rec)
  have enc: "\<And>iv. aes_gcm_encrypt test_browser [42] iv [7, 8, 9] = [42] @ iv @ [7, 8, 9]"
    by (simp add: test_browser_def)
  obtain c1 c2 where run:
    "fst (encryptFile test_browser [7, 8, 9] open_state) = Inr (c1, map (cryptoRandom open_state) [0..<12])"
    "fst (encryptFile test_browser [7, 8, 9] (snd (encryptFile test_browser [7, 8, 9] open_state)))
       = Inr (c2, map (cryptoRandom open_state) [12..<24])"
    "c1 \<noteq> c2"
    "decryptFile test_browser c1 (map (cryptoRandom open_state) [0..<12])
       (snd (encryptFile test_browser [7, 8, 9] open_state)) = Inr [7, 8, 9]"
    "decryptFile test_browser c2 (map (cryptoRandom open_state) [12..<24])
       (snd (encryptFile test_browser [7, 8, 9] (snd (encryptFile test_browser [7, 8, 9] open_state))))
       = Inr [7, 8, 9]"
    using encryptFile_roundtrip [where B = test_browser and M = "[7, 8, 9]" and s = open_state
        and key = "[42]", OF cipher nonce unlocked fresh]
    by blast
  have c1: "c1 = [42] @ map of_nat [0..<12] @ [7, 8, 9]"
    using run(1) encryptFile_twice [OF unlocked, of test_browser "[7, 8, 9]"] enc
    unfolding stream by simp
  have c2: "c2 = [42] @ map of_nat [12..<24] @ [7, 8, 9]"
    using run(2) encryptFile_twice [OF unlocked, of test_browser "[7, 8, 9]"] enc
    unfolding stream by simp
  show ?thesis
    using run c1 c2 unfolding stream by auto
qed

subsection \<open>Properties of the FileHandler\<close>

lemma processFile_unsupported:
  "\<not> isValidImage f \<Longrightarrow> \<not> isValidVideo f \<Longrightarrow> processFile B f c s = (Inl UnsupportedFileType, s)"
  by (simp add: processFile_def)

lemma processFile_failure:
  "fst (processFile B f c s) = Inl e \<Longrightarrow> mediaItems (snd (processFile B f c s)) = mediaItems s"
  by (cases "masterKey s")
     (auto simp: processFile_def Let_def encryptBlob_locked encryptBlob_unlocked generateUUID_def
        addMediaItem_def idb_add_def
        split: sum.splits prod.splits if_splits)

lemma processFile_success:
  assumes "fst (processFile B f c s) = Inr item"
  shows "mediaItems (snd (processFile B f c s)) = mediaItems s @ [item]
    \<and> mi_id item \<notin> mi_id ` set (mediaItems s)
    \<and> mi_id item = fst (uuid_replace (js ''xxxxxxxx-xxxx-4xxx-yxxx-xxxxxxxxxxxx'') (mathRandom s))
    \<and> mi_createdAt item = now s \<and> mi_aiTags item = []
    \<and> (\<exists>key thumbnail. masterKey s = Some key
          \<and> generateThumbnail B (mi_type item) f = Inr thumbnail
          \<and> mi_thumbnailData item = aes_gcm_encrypt B key (map (cryptoRandom s) [0..<12]) thumbnail
          \<and> mi_thumbnailIv item = bufferToBase64 B (map (cryptoRandom s) [0..<12])
          \<and> mi_fileData item = aes_gcm_encrypt B key (map (cryptoRandom s) [12..<24]) (file_bytes f)
          \<and> mi_fileIv item = bufferToBase64 B (map (cryptoRandom s) [12..<24]))"
proof (cases "masterKey s")
  case None
  then show ?thesis
    using assms
    by (auto simp: processFile_def Let_def encryptBlob_locked split: sum.splits if_splits)
next
  case (Some key)
  then show ?thesis
    using assms
    by (auto simp: processFile_def Let_def encryptBlob_unlocked generateUUID_def second_iv
        addMediaItem_def idb_add_def filter_empty_conv
        split: sum.splits prod.splits if_splits)
qed

lemma processFile_progress:
  "processFile B f c (s\<lparr>progress := p\<rparr>)
     = (fst (processFile B f c s), (snd (processFile B f c s))\<lparr>progress := p\<rparr>)"
  by (cases "masterKey s")
     (auto simp: processFile_def Let_def encryptBlob_locked encryptBlob_unlocked generateUUID_def
        addMediaItem_def idb_add_def
        split: sum.splits prod.splits if_splits)


lemma memo_unsupported: "\<not> isValidImage memo \<and> \<not> isValidVideo memo"
  by (simp add: isValidImage_def isValidVideo_def memo_def js_def)

lemma photo_locked: "fst (processFile test_browser photo (js ''cats'') fresh_state) = Inl Locked"
  by (simp add: processFile_def isValidImage_def photo_def js_def test_browser_def
      generateThumbnail_def encryptBlob_locked fresh_state_def)

lemma photo_imported:
  "\<exists>item. fst (processFile test_browser photo (js ''cats'') open_state) = Inr item"
  by (simp add: processFile_def isValidImage_def photo_def js_def test_browser_def
      generateThumbnail_def encryptBlob_def encryptFile_def getMasterKey_def getRandomValues_def
      open_state_def fresh_state_def generateUUID_def addMediaItem_def idb_add_def Let_def)

lemma importBatch_spec_progress:
  "importBatch_spec B fs c (s\<lparr>progress := p\<rparr>)
     = (fst (importBatch_spec B fs c s), (snd (importBatch_spec B fs c s))\<lparr>progress := p\<rparr>)"
proof (induction fs arbitrary: s)
  case Nil
  show ?case by simp
next
  case (Cons f fs)
  show ?case
    by (simp add: processFile_progress Cons.IH [of "snd (processFile B f c s)"]
        split: prod.splits)
qed

lemma importFiles_loop_spec:
  "\<exists>p. importFiles_loop B fs c callback i totalFiles results s
     = (results @ fst (importBatch_spec B fs c s), (snd (importBatch_spec B fs c s))\<lparr>progress := p\<rparr>)"
proof (induction fs arbitrary: i results s)
  case Nil
  have "s = s\<lparr>progress := progress s\<rparr>" by simp
  then show ?case by (metis importFiles_loop.simps(1) importBatch_spec.simps(1) append_Nil2 fst_conv snd_conv)
next
  case (Cons f fs)
  define q where "q = (if callback then progress s @ [(i + 1, totalFiles, file_name f)] else progress s)"
  have s1: "(if callback then s\<lparr>progress := progress s @ [(i + 1, totalFiles, file_name f)]\<rparr> else s)
      = s\<lparr>progress := q\<rparr>"
    by (simp add: q_def)
  obtain r s' where pf: "processFile B f c s = (r, s')" by (cases "processFile B f c s")
  obtain rs s'' where sp: "importBatch_spec B fs c s' = (rs, s'')"
    by (cases "importBatch_spec B fs c s'")
  have pf1: "processFile B f c (s\<lparr>progress := q\<rparr>) = (r, s'\<lparr>progress := q\<rparr>)"
    using pf by (simp add: processFile_progress)
  have sp1: "importBatch_spec B fs c (s'\<lparr>progress := q\<rparr>) = (rs, s''\<lparr>progress := q\<rparr>)"
    using sp by (simp add: importBatch_spec_progress)
  show ?case
  proof (cases r)
    case (Inl e)
    obtain p where "importFiles_loop B fs c callback (i + 1) totalFiles
        (results @ [NotImported e (file_name f)]) (s'\<lparr>progress := q\<rparr>)
      = ((results @ [NotImported e (file_name f)]) @ rs, s''\<lparr>progress := q, progress := p\<rparr>)"
      using Cons.IH [of "i + 1" "results @ [NotImported e (file_name f)]" "s'\<lparr>progress := q\<rparr>"] sp1
      by auto
    then show ?thesis
      using Inl pf sp pf1 s1 by (auto simp: Let_def)
  next
    case (Inr item)
    obtain p where "importFiles_loop B fs c callback (i + 1) totalFiles
        (results @ [Imported item (file_name f)]) (s'\<lparr>progress := q\<rparr>)
      = ((results @ [Imported item (file_name f)]) @ rs, s''\<lparr>progress := q, progress := p\<rparr>)"
      using Cons.IH [of "i + 1" "results @ [Imported item (file_name f)]" "s'\<lparr>progress := q\<rparr>"] sp1
      by auto
    then show ?thesis
      using Inr pf sp pf1 s1 by (auto simp: Let_def)
  qed
qed

lemma importFiles_spec:
  "fst (importFiles B files c callback s) = fst (importBatch_spec B files c s)
   \<and> mediaItems (snd (importFiles B files c callback s)) = mediaItems (snd (importBatch_spec B files c s))"
proof -
  obtain p where "importFiles B files c callback s
     = ([] @ fst (importBatch_spec B files c s), (snd (importBatch_spec B files c s))\<lparr>progress := p\<rparr>)"
    unfolding importFiles_def using importFiles_loop_spec by blast
  then show ?thesis by simp
qed

lemma importBatch_spec_Cons:
  "importBatch_spec B (f # fs) c s =
     ((case fst (processFile B f c s) of
         Inr item \<Rightarrow> Imported item (file_name f)
       | Inl e \<Rightarrow> NotImported e (file_name f))
      # fst (importBatch_spec B fs c (snd (processFile B f c s))),
      snd (importBatch_spec B fs c (snd (processFile B f c s))))"
  by (simp split: prod.splits)

lemma importBatch_spec_names:
  "map fileName (fst (importBatch_spec B files c s)) = map file_name files"
proof (induction files arbitrary: s)
  case Nil
  show ?case by simp
next
  case (Cons f fs)
  show ?case
    unfolding importBatch_spec_Cons using Cons.IH by (simp split: sum.splits)
qed

text \<open>
  Claim C8. \<^verbatim>\<open>importFiles\<close> returns one result per file, with the file names in input
  order; the results and the media store are those of importing the files one after
  the other, a failure never stopping the batch. For three files of which the second
  has an unsupported type and the other two import, the results are success, failure,
  success, and the store has gained exactly the two imported items.
\<close>

theorem importFiles_best_effort:
  "map fileName (fst (importFiles B files c callback s)) = map file_name files
   \<and> length (fst (importFiles B files c callback s)) = length files
   \<and> fst (importFiles B files c callback s) = fst (importBatch_spec B files c s)
   \<and> mediaItems (snd (importFiles B files c callback s))
        = mediaItems (snd (importBatch_spec B files c s))
   \<and> (\<not> isValidImage f2 \<and> \<not> isValidVideo f2
        \<and> fst (processFile B f1 c s) = Inr item1
        \<and> fst (processFile B f3 c (snd (processFile B f1 c s))) = Inr item3 \<longrightarrow>
        fst (importFiles B [f1, f2, f3] c callback s)
          = [Imported item1 (file_name f1), NotImported UnsupportedFileType (file_name f2),
             Imported item3 (file_name f3)]
        \<and> mediaItems (snd (importFiles B [f1, f2, f3] c callback s)) = mediaItems s @ [item1, item3])"
proof -
  have names: "map fileName (fst (importFiles B files c callback s)) = map file_name files"
    by (simp add: importFiles_spec importBatch_spec_names)
  have len: "length (fst (importFiles B files c callback s)) = length files"
    using arg_cong [OF names, of length] by simp
  have three: "fst (importFiles B [f1, f2, f3] c callback s)
          = [Imported item1 (file_name f1), NotImported UnsupportedFileType (file_name f2),
             Imported item3 (file_name f3)]
        \<and> mediaItems (snd (importFiles B [f1, f2, f3] c callback s)) = mediaItems s @ [item1, item3]"
    if u: "\<not> isValidImage f2" "\<not> isValidVideo f2"
      and a: "fst (processFile B f1 c s) = Inr item1"
      and b: "fst (processFile B f3 c (snd (processFile B f1 c s))) = Inr item3"
  proof -
    have m1: "mediaItems (snd (processFile B f1 c s)) = mediaItems s @ [item1]"
      using processFile_success [OF a] by simp
    have m3: "mediaItems (snd (processFile B f3 c (snd (processFile B f1 c s))))
        = (mediaItems s @ [item1]) @ [item3]"
      using processFile_success [OF b] m1 by simp
    show ?thesis
      unfolding conjunct1 [OF importFiles_spec] conjunct2 [OF importFiles_spec]
        importBatch_spec_Cons processFile_unsupported [OF u]
      using a b m3 by simp
  qed
  show ?thesis
    using names len three by (simp add: importFiles_spec)
qed


lemma processFile_fields:
  assumes "fst (processFile B f c s) = Inr item"
  shows "mi_fileName item = file_name f \<and> mi_categoryId item = c \<and> mi_mimeType item = file_type f"
proof (cases "masterKey s")
  case None
  then show ?thesis
    using assms
    by (auto simp: processFile_def Let_def encryptBlob_locked split: sum.splits if_splits)
next
  case (Some key)
  then show ?thesis
    using assms
    by (cases "if isValidImage f then Image else Video")
       (auto simp: processFile_def Let_def encryptBlob_unlocked generateUUID_def
        addMediaItem_def idb_add_def
        split: sum.splits prod.splits if_splits option.splits)
qed

lemma uuid_replace_snd:
  "snd (uuid_replace (c # cs) rnd) =
     (if c = 0x78 \<or> c = 0x79 then snd (uuid_replace cs (\<lambda>i. rnd (i + 1)))
      else snd (uuid_replace cs rnd))"
  by (simp add: Let_def split: prod.splits)

lemma uuid_replace_rest:
  "snd (uuid_replace cs rnd) = (\<lambda>i. rnd (i + length (filter (\<lambda>c. c = 0x78 \<or> c = 0x79) cs)))"
proof (induction cs arbitrary: rnd)
  case Nil
  show ?case by simp
next
  case (Cons c cs)
  show ?case
    unfolding uuid_replace_snd by (simp add: Cons.IH)
qed

lemma processFile_frame:
  assumes "fst (processFile B f c s) = Inr item"
  shows "masterKey (snd (processFile B f c s)) = masterKey s
       \<and> mathRandom (snd (processFile B f c s))
           = snd (uuid_replace (js ''xxxxxxxx-xxxx-4xxx-yxxx-xxxxxxxxxxxx'') (mathRandom s))"
proof (cases "masterKey s")
  case None
  then show ?thesis
    using assms
    by (auto simp: processFile_def Let_def encryptBlob_locked split: sum.splits if_splits)
next
  case (Some key)
  then show ?thesis
    using assms
    by (auto simp: processFile_def Let_def encryptBlob_unlocked generateUUID_def
        addMediaItem_def idb_add_def
        split: sum.splits prod.splits if_splits)
qed

lemma processFile_succeeds:
  assumes "isValidImage f \<or> isValidVideo f"
    and "extractMetadata B (if isValidImage f then Image else Video) f = Inr md"
    and "generateThumbnail B (if isValidImage f then Image else Video) f = Inr thumbnail"
    and "masterKey s = Some key"
    and "fst (generateUUID s) \<notin> mi_id ` set (mediaItems s)"
  shows "\<exists>item. fst (processFile B f c s) = Inr item"
  using assms
  by (auto simp: processFile_def Let_def encryptBlob_unlocked generateUUID_def
        addMediaItem_def idb_add_def filter_empty_conv
        split: sum.splits prod.splits if_splits)

lemma uuid_first: "fst (uuid_replace (js ''xxxxxxxx-xxxx-4xxx-yxxx-xxxxxxxxxxxx'') (\<lambda>i. i))
    = js ''01234567-89ab-4cde-b012-3456789abcde''"
  by (simp add: js_def hexDigit_def Let_def split: prod.splits)

lemma uuid_second: "fst (uuid_replace (js ''xxxxxxxx-xxxx-4xxx-yxxx-xxxxxxxxxxxx'') (\<lambda>i. i + 31))
    = js ''f0123456-789a-4bcd-af01-23456789abcd''"
  by (simp add: js_def hexDigit_def Let_def split: prod.splits)

lemma uuid_count: "length (filter (\<lambda>c. c = 0x78 \<or> c = 0x79) (js ''xxxxxxxx-xxxx-4xxx-yxxx-xxxxxxxxxxxx'')) = 31"
  by (simp add: js_def)


lemma generateUUID_fst:
  "fst (generateUUID s) = fst (uuid_replace (js ''xxxxxxxx-xxxx-4xxx-yxxx-xxxxxxxxxxxx'') (mathRandom s))"
  by (simp add: generateUUID_def split: prod.splits)

lemma clip_imported:
  "\<exists>item. fst (processFile test_browser clip (js ''cats'')
      (snd (processFile test_browser photo (js ''cats'') open_state))) = Inr item"
proof -
  obtain item1 where a: "fst (processFile test_browser photo (js ''cats'') open_state) = Inr item1"
    using photo_imported by blast
  define s1 where "s1 = snd (processFile test_browser photo (js ''cats'') open_state)"
  have start: "masterKey open_state = Some [42] \<and> mathRandom open_state = (\<lambda>i. i)
      \<and> mediaItems open_state = []"
    by (simp add: open_state_def fresh_state_def)
  have key: "masterKey s1 = Some [42]"
    using processFile_frame [OF a] start by (simp add: s1_def)
  have rnd: "mathRandom s1 = (\<lambda>i. i + 31)"
    using processFile_frame [OF a] start by (simp add: s1_def uuid_replace_rest uuid_count)
  have items: "mediaItems s1 = [item1] \<and> mi_id item1 = js ''01234567-89ab-4cde-b012-3456789abcde''"
    using processFile_success [OF a] start by (simp add: s1_def uuid_first)
  have uuid: "fst (generateUUID s1) = js ''f0123456-789a-4bcd-af01-23456789abcd''"
    by (simp add: generateUUID_fst rnd uuid_second)
  have new: "fst (generateUUID s1) \<notin> mi_id ` set (mediaItems s1)"
    using items uuid by (simp add: js_def)
  have video: "\<not> isValidImage clip \<and> isValidVideo clip"
    by (simp add: isValidImage_def isValidVideo_def clip_def js_def)
  have md: "extractMetadata test_browser Video clip =
      Inr \<lparr>md_width = 640, md_height = 480, md_duration = Some 12, md_size = 4,
           md_type = js ''video/mp4'', md_fileName = js ''c.mp4''\<rparr>"
    by (simp add: test_browser_def clip_def)
  have th: "generateThumbnail test_browser Video clip = Inr [1, 2]"
    by (simp add: generateThumbnail_def test_browser_def clip_def)
  show ?thesis
    unfolding s1_def [symmetric]
    using processFile_succeeds [of clip test_browser _ _ s1 "[42]" "js ''cats''"] video md th key new
    by simp
qed

theorem importFiles_best_effort_witness:
  "map success (fst (importFiles test_browser [photo, memo, clip] (js ''cats'') True open_state))
     = [True, False, True]
   \<and> map fileName (fst (importFiles test_browser [photo, memo, clip] (js ''cats'') True open_state))
     = [js ''a.png'', js ''b.txt'', js ''c.mp4'']
   \<and> map mi_fileName (mediaItems (snd (importFiles test_browser [photo, memo, clip] (js ''cats'') True
        open_state))) = [js ''a.png'', js ''c.mp4'']"
proof -
  obtain item1 where a: "fst (processFile test_browser photo (js ''cats'') open_state) = Inr item1"
    using photo_imported by blast
  obtain item3 where b: "fst (processFile test_browser clip (js ''cats'')
      (snd (processFile test_browser photo (js ''cats'') open_state))) = Inr item3"
    using clip_imported by blast
  have names: "file_name photo = js ''a.png'' \<and> file_name memo = js ''b.txt''
      \<and> file_name clip = js ''c.mp4'' \<and> mediaItems open_state = []"
    by (simp add: photo_def memo_def clip_def open_state_def fresh_state_def)
  have run: "fst (importFiles test_browser [photo, memo, clip] (js ''cats'') True open_state)
          = [Imported item1 (file_name photo), NotImported UnsupportedFileType (file_name memo),
             Imported item3 (file_name clip)]
        \<and> mediaItems (snd (importFiles test_browser [photo, memo, clip] (js ''cats'') True open_state))
          = mediaItems open_state @ [item1, item3]"
    using importFiles_best_effort [where B = test_browser and files = "[]"
        and ?f1.0 = photo and ?f2.0 = memo and ?f3.0 = clip and c = "js ''cats''"
        and callback = True and s = open_state and ?item1.0 = item1 and ?item3.0 = item3]
      memo_unsupported a b
    by blast
  show ?thesis
    using run names processFile_fields [OF a] processFile_fields [OF b] by simp
qed

lemma below_16:
  assumes "v < (16::nat)"
  shows "v = 0 \<or> v = 1 \<or> v = 2 \<or> v = 3 \<or> v = 4 \<or> v = 5 \<or> v = 6 \<or> v = 7 \<or> v = 8 \<or> v = 9
       \<or> v = 10 \<or> v = 11 \<or> v = 12 \<or> v = 13 \<or> v = 14 \<or> v = 15"
  using assms by arith

lemma hexDigit_spec: "hexDigit (n mod 16) = spec_hex (n mod 16)"
proof -
  have "n mod 16 < 16" by simp
  from below_16 [OF this] show ?thesis
    by (elim disjE) (simp_all add: hexDigit_def spec_hex_def)
qed

lemma hexDigit_variant: "hexDigit (n mod 16 mod 4 + 8) = of_char (''89ab'' ! (n mod 4))"
proof -
  have m: "n mod 16 mod 4 = n mod 4"
    by (simp add: mod_mod_cancel)
  have "n mod 4 < 4" by simp
  then have "n mod 4 = 0 \<or> n mod 4 = 1 \<or> n mod 4 = 2 \<or> n mod 4 = 3" by arith
  then show ?thesis
    unfolding m by (elim disjE) (simp_all add: hexDigit_def)
qed

lemma uuid_replace_v4:
  "fst (uuid_replace (js ''xxxxxxxx-xxxx-4xxx-yxxx-xxxxxxxxxxxx'') rnd) = uuid_v4 rnd"
  by (simp add: js_def uuid_v4_def hexDigit_spec hexDigit_variant Let_def
      One_nat_def [symmetric] del: One_nat_def split: prod.splits)


lemma valid_types:
  "isValidImage f = (file_type f \<in> set image_types)
   \<and> isValidVideo f = (file_type f \<in> set video_types)"
  by (simp add: isValidImage_def isValidVideo_def image_types_def video_types_def)

lemma uuid_stream:
  "snd (uuid_replace (js ''xxxxxxxx-xxxx-4xxx-yxxx-xxxxxxxxxxxx'') rnd) = (\<lambda>i. rnd (i + 31))"
  by (simp add: uuid_replace_rest uuid_count)

lemma processFile_item:
  assumes "fst (processFile B f c s) = Inr item"
  shows "mi_id item = uuid_v4 (mathRandom s)
    \<and> mathRandom (snd (processFile B f c s)) = (\<lambda>i. mathRandom s (i + 31))
    \<and> cryptoRandom (snd (processFile B f c s)) = (\<lambda>i. cryptoRandom s (i + 24))
    \<and> mi_type item = (if file_type f \<in> set image_types then Image else Video)
    \<and> (\<exists>key thumbnail. masterKey s = Some key
          \<and> render_thumbnail B (mi_type item) f = Inr thumbnail
          \<and> mi_thumbnailData item = aes_gcm_encrypt B key (map (cryptoRandom s) [0..<12]) thumbnail
          \<and> mi_thumbnailIv item = btoa B (map ucast (map (cryptoRandom s) [0..<12]))
          \<and> mi_fileData item = aes_gcm_encrypt B key (map (cryptoRandom s) [12..<24]) (file_bytes f)
          \<and> mi_fileIv item = btoa B (map ucast (map (cryptoRandom s) [12..<24])))"
proof -
  have id: "mi_id item = uuid_v4 (mathRandom s)"
    using processFile_success [OF assms] by (simp add: uuid_replace_v4)
  have rnd: "mathRandom (snd (processFile B f c s)) = (\<lambda>i. mathRandom s (i + 31))"
    using processFile_frame [OF assms] by (simp add: uuid_stream)
  obtain key thumbnail where enc: "masterKey s = Some key"
      "generateThumbnail B (mi_type item) f = Inr thumbnail"
      "mi_thumbnailData item = aes_gcm_encrypt B key (map (cryptoRandom s) [0..<12]) thumbnail"
      "mi_thumbnailIv item = bufferToBase64 B (map (cryptoRandom s) [0..<12])"
      "mi_fileData item = aes_gcm_encrypt B key (map (cryptoRandom s) [12..<24]) (file_bytes f)"
      "mi_fileIv item = bufferToBase64 B (map (cryptoRandom s) [12..<24])"
    using processFile_success [OF assms] by blast
  have draws: "cryptoRandom (snd (processFile B f c s)) = (\<lambda>i. cryptoRandom s (i + 24))"
    and ty: "mi_type item = (if file_type f \<in> set image_types then Image else Video)"
    using assms enc(1)
    by (auto simp: processFile_def Let_def encryptBlob_unlocked generateUUID_def
        addMediaItem_def idb_add_def conjunct1 [OF valid_types] add.assoc
        split: sum.splits prod.splits if_splits)
  have "\<exists>key thumbnail. masterKey s = Some key
          \<and> render_thumbnail B (mi_type item) f = Inr thumbnail
          \<and> mi_thumbnailData item = aes_gcm_encrypt B key (map (cryptoRandom s) [0..<12]) thumbnail
          \<and> mi_thumbnailIv item = btoa B (map ucast (map (cryptoRandom s) [0..<12]))
          \<and> mi_fileData item = aes_gcm_encrypt B key (map (cryptoRandom s) [12..<24]) (file_bytes f)
          \<and> mi_fileIv item = btoa B (map ucast (map (cryptoRandom s) [12..<24]))"
    using enc unfolding generateThumbnail_def bufferToBase64_def by blast
  then show ?thesis
    using id rnd draws ty by blast
qed

text \<open>
  Claim C7. When \<^verbatim>\<open>processFile\<close> fails, at whatever step, the media store is as before.
  A file that is neither a valid image nor a valid video, that is, whose MIME type is
  none of the five image types and six video types, fails with the unsupported type
  error and leaves the whole state untouched. When it succeeds, exactly the returned
  item has been added to the store. Its id was not in the store and is the version 4
  identifier spelt from the next 31 numbers of \<^verbatim>\<open>Math.random\<close>, which are consumed;
  \<^verbatim>\<open>createdAt\<close> is the current time and \<^verbatim>\<open>aiTags\<close> is empty. The vault is unlocked,
  and 24 bytes of \<^verbatim>\<open>crypto.getRandomValues\<close> are consumed: the thumbnail is stored as
  its AES-GCM ciphertext under the master key with the first 12 of them as iv, the
  file as its ciphertext with the next 12, and beside each ciphertext the base64 text
  of the very iv it was made with.
\<close>

theorem processFile_atomic:
  "(fst (processFile B f categoryId s) = Inl e \<longrightarrow>
      mediaItems (snd (processFile B f categoryId s)) = mediaItems s)
   \<and> (\<not> isValidImage f \<and> \<not> isValidVideo f \<longrightarrow>
        processFile B f categoryId s = (Inl UnsupportedFileType, s))
   \<and> (file_type f \<notin> set image_types \<and> file_type f \<notin> set video_types \<longrightarrow>
        processFile B f categoryId s = (Inl UnsupportedFileType, s))
   \<and> (fst (processFile B f categoryId s) = Inr item \<longrightarrow>
        mediaItems (snd (processFile B f categoryId s)) = mediaItems s @ [item]
      \<and> mi_id item \<notin> mi_id ` set (mediaItems s)
      \<and> mi_id item = uuid_v4 (mathRandom s)
      \<and> mathRandom (snd (processFile B f categoryId s)) = (\<lambda>i. mathRandom s (i + 31))
      \<and> cryptoRandom (snd (processFile B f categoryId s)) = (\<lambda>i. cryptoRandom s (i + 24))
      \<and> mi_type item = (if file_type f \<in> set image_types then Image else Video)
      \<and> mi_categoryId item = categoryId \<and> mi_fileName item = file_name f
      \<and> mi_mimeType item = file_type f
      \<and> mi_createdAt item = now s \<and> mi_aiTags item = []
      \<and> (\<exists>key thumbnail. masterKey s = Some key
            \<and> render_thumbnail B (mi_type item) f = Inr thumbnail
            \<and> mi_thumbnailData item = aes_gcm_encrypt B key (map (cryptoRandom s) [0..<12]) thumbnail
            \<and> mi_thumbnailIv item = btoa B (map ucast (map (cryptoRandom s) [0..<12]))
            \<and> mi_fileData item = aes_gcm_encrypt B key (map (cryptoRandom s) [12..<24]) (file_bytes f)
            \<and> mi_fileIv item = btoa B (map ucast (map (cryptoRandom s) [12..<24]))))"
proof (intro conjI impI)
  show "mediaItems (snd (processFile B f categoryId s)) = mediaItems s"
    if "fst (processFile B f categoryId s) = Inl e"
    using that by (rule processFile_failure)
  show "processFile B f categoryId s = (Inl UnsupportedFileType, s)"
    if "\<not> isValidImage f \<and> \<not> isValidVideo f"
    using that by (simp add: processFile_unsupported)
  show "processFile B f categoryId s = (Inl UnsupportedFileType, s)"
    if "file_type f \<notin> set image_types \<and> file_type f \<notin> set video_types"
    using that by (simp add: processFile_unsupported valid_types)
next
  assume ok: "fst (processFile B f categoryId s) = Inr item"
  note a = processFile_success [OF ok] and b = processFile_item [OF ok]
    and c = processFile_fields [OF ok]
  show "mediaItems (snd (processFile B f categoryId s)) = mediaItems s @ [item]"
    using a by simp
  show "mi_id item \<notin> mi_id ` set (mediaItems s)" using a by blast
  show "mi_id item = uuid_v4 (mathRandom s)" using b by simp
  show "mathRandom (snd (processFile B f categoryId s)) = (\<lambda>i. mathRandom s (i + 31))"
    using b by simp
  show "cryptoRandom (snd (processFile B f categoryId s)) = (\<lambda>i. cryptoRandom s (i + 24))"
    using b by simp
  show "mi_type item = (if file_type f \<in> set image_types then Image else Video)"
    using b by simp
  show "mi_categoryId item = categoryId" using c by simp
  show "mi_fileName item = file_name f" using c by simp
  show "mi_mimeType item = file_type f" using c by simp
  show "mi_createdAt item = now s" using a by simp
  show "mi_aiTags item = []" using a by simp
  show "\<exists>key thumbnail. masterKey s = Some key
            \<and> render_thumbnail B (mi_type item) f = Inr thumbnail
            \<and> mi_thumbnailData item = aes_gcm_encrypt B key (map (cryptoRandom s) [0..<12]) thumbnail
            \<and> mi_thumbnailIv item = btoa B (map ucast (map (cryptoRandom s) [0..<12]))
            \<and> mi_fileData item = aes_gcm_encrypt B key (map (cryptoRandom s) [12..<24]) (file_bytes f)
            \<and> mi_fileIv item = btoa B (map ucast (map (cryptoRandom s) [12..<24]))"
    using b by blast
qed


lemma photo_draws:
  "uuid_v4 (mathRandom open_state) = js ''01234567-89ab-4cde-b012-3456789abcde''
   \<and> map (cryptoRandom open_state) [0..<12] = [0, 1, 2, 3, 4, 5, 6, 7, 8, 9, 10, 11]
   \<and> map (cryptoRandom open_state) [12..<24] = [12, 13, 14, 15, 16, 17, 18, 19, 20, 21, 22, 23]
   \<and> masterKey open_state = Some [42] \<and> now open_state = 1700000000000
   \<and> mediaItems open_state = [] \<and> mediaItems fresh_state = []
   \<and> render_thumbnail test_browser ty photo = Inr [7, 8] \<and> file_bytes photo = [7, 8, 9]
   \<and> file_name photo = js ''a.png'' \<and> file_type photo = js ''image/png''
   \<and> js ''image/png'' \<in> set image_types"
  by (simp add: uuid_v4_def spec_hex_def open_state_def fresh_state_def js_def test_browser_def
      photo_def image_types_def upt_rec)

theorem processFile_atomic_witness:
  "processFile test_browser memo (js ''cats'') open_state = (Inl UnsupportedFileType, open_state)
   \<and> mediaItems (snd (processFile test_browser photo (js ''cats'') fresh_state)) = []
   \<and> map mi_id (mediaItems (snd (processFile test_browser photo (js ''cats'') open_state)))
        = [js ''01234567-89ab-4cde-b012-3456789abcde'']
   \<and> map mi_thumbnailIv (mediaItems (snd (processFile test_browser photo (js ''cats'') open_state)))
        = [[0, 1, 2, 3, 4, 5, 6, 7, 8, 9, 10, 11]]
   \<and> map mi_thumbnailData (mediaItems (snd (processFile test_browser photo (js ''cats'') open_state)))
        = [[42, 0, 1, 2, 3, 4, 5, 6, 7, 8, 9, 10, 11, 7, 8]]
   \<and> map mi_fileIv (mediaItems (snd (processFile test_browser photo (js ''cats'') open_state)))
        = [[12, 13, 14, 15, 16, 17, 18, 19, 20, 21, 22, 23]]
   \<and> map mi_fileData (mediaItems (snd (processFile test_browser photo (js ''cats'') open_state)))
        = [[42, 12, 13, 14, 15, 16, 17, 18, 19, 20, 21, 22, 23, 7, 8, 9]]
   \<and> map mi_type (mediaItems (snd (processFile test_browser photo (js ''cats'') open_state)))
        = [Image]
   \<and> map mi_aiTags (mediaItems (snd (processFile test_browser photo (js ''cats'') open_state))) = [[]]
   \<and> map mi_createdAt (mediaItems (snd (processFile test_browser photo (js ''cats'') open_state)))
        = [1700000000000]
   \<and> mathRandom (snd (processFile test_browser photo (js ''cats'') open_state)) 0 = 31
   \<and> cryptoRandom (snd (processFile test_browser photo (js ''cats'') open_state)) 0 = 24"
proof -
  obtain item where ok: "fst (processFile test_browser photo (js ''cats'') open_state) = Inr item"
    using photo_imported by blast
  have cipher: "aes_gcm_encrypt test_browser = (\<lambda>key iv plain. key @ iv @ plain)
      \<and> btoa test_browser = (\<lambda>binary. binary)"
    by (simp add: test_browser_def)
  have streams: "mathRandom open_state 31 = 31 \<and> cryptoRandom open_state 24 = 24"
    by (simp add: open_state_def fresh_state_def)
  have memo_types: "file_type memo \<notin> set image_types \<and> file_type memo \<notin> set video_types"
    by (simp add: memo_def image_types_def video_types_def js_def)
  note draws = photo_draws [of "mi_type item"]
  have unsupported:
    "processFile test_browser memo (js ''cats'') open_state = (Inl UnsupportedFileType, open_state)"
    using processFile_atomic [where B = test_browser and f = memo and s = open_state
        and categoryId = "js ''cats''" and e = Locked and item = item] memo_types
    by blast
  have locked: "mediaItems (snd (processFile test_browser photo (js ''cats'') fresh_state)) = []"
    using processFile_atomic [where B = test_browser and f = photo and s = fresh_state
        and categoryId = "js ''cats''" and e = Locked and item = item] photo_locked draws
    by simp
  have imported:
    "mediaItems (snd (processFile test_browser photo (js ''cats'') open_state))
       = mediaItems open_state @ [item]
     \<and> mi_id item = uuid_v4 (mathRandom open_state)
     \<and> mathRandom (snd (processFile test_browser photo (js ''cats'') open_state))
         = (\<lambda>i. mathRandom open_state (i + 31))
     \<and> cryptoRandom (snd (processFile test_browser photo (js ''cats'') open_state))
         = (\<lambda>i. cryptoRandom open_state (i + 24))
     \<and> mi_type item = (if file_type photo \<in> set image_types then Image else Video)
     \<and> mi_createdAt item = now open_state \<and> mi_aiTags item = []
     \<and> (\<exists>key thumbnail. masterKey open_state = Some key
          \<and> render_thumbnail test_browser (mi_type item) photo = Inr thumbnail
          \<and> mi_thumbnailData item
              = aes_gcm_encrypt test_browser key (map (cryptoRandom open_state) [0..<12]) thumbnail
          \<and> mi_thumbnailIv item
              = btoa test_browser (map ucast (map (cryptoRandom open_state) [0..<12]))
          \<and> mi_fileData item
              = aes_gcm_encrypt test_browser key (map (cryptoRandom open_state) [12..<24])
                  (file_bytes photo)
          \<and> mi_fileIv item
              = btoa test_browser (map ucast (map (cryptoRandom open_state) [12..<24])))"
    using processFile_atomic [where B = test_browser and f = photo and s = open_state
        and categoryId = "js ''cats''" and e = Locked and item = item] ok
    by blast
  then obtain key thumbnail where parts: "masterKey open_state = Some key"
      "render_thumbnail test_browser (mi_type item) photo = Inr thumbnail"
      "mi_thumbnailData item
         = aes_gcm_encrypt test_browser key (map (cryptoRandom open_state) [0..<12]) thumbnail"
      "mi_thumbnailIv item = btoa test_browser (map ucast (map (cryptoRandom open_state) [0..<12]))"
      "mi_fileData item
         = aes_gcm_encrypt test_browser key (map (cryptoRandom open_state) [12..<24]) (file_bytes photo)"
      "mi_fileIv item = btoa test_browser (map ucast (map (cryptoRandom open_state) [12..<24]))"
    by blast
  have key: "key = [42] \<and> thumbnail = [7, 8]"
    using parts(1,2) draws by simp
  show ?thesis
    using unsupported locked imported parts(3-6) key draws cipher streams
    by simp
qed

subsection \<open>Properties of deleteCategory\<close>

lemma idb_put_replace:
  assumes "idb_put key uniq r store = Inr st" and "x0 \<in> set store" and "key x0 = key r"
  shows "st = map (\<lambda>x. if key x = key r then r else x) store"
proof -
  have "filter (\<lambda>x. key x = key r) store \<noteq> []"
    using assms(2,3) by (auto simp: filter_empty_conv)
  then show ?thesis
    using assms(1) by (auto simp: idb_put_def split: if_splits)
qed

lemma idb_put_no_index:
  assumes "x0 \<in> set store" and "key x0 = key r"
  shows "idb_put key [] r store = Inr (map (\<lambda>x. if key x = key r then r else x) store)"
proof -
  have "filter (\<lambda>x. key x = key r) store \<noteq> []"
    using assms by (auto simp: filter_empty_conv)
  then show ?thesis
    by (simp add: idb_put_def)
qed

lemma distinct_key_eq:
  assumes "distinct (map key store)" and "x \<in> set store" and "y \<in> set store" and "key x = key y"
  shows "x = y"
  using assms by (meson distinct_map inj_onD)

lemma reassignItems_map:
  assumes "distinct (map mi_id (mediaItems s))"
    and "\<forall>i\<in>set items. \<exists>x\<in>set (mediaItems s). mi_id x = mi_id i \<and> uncategorize x = uncategorize i"
  shows "reassignItems items s =
     (Inr (), s\<lparr>mediaItems := map (\<lambda>x. if mi_id x \<in> mi_id ` set items then uncategorize x else x)
                                 (mediaItems s)\<rparr>)"
  using assms
proof (induction items arbitrary: s)
  case Nil
  show ?case by simp
next
  case (Cons a rest)
  obtain x0 where x0: "x0 \<in> set (mediaItems s)" "mi_id x0 = mi_id a" "uncategorize x0 = uncategorize a"
    using Cons.prems(2) by auto
  let ?g = "\<lambda>x. if mi_id x = mi_id a then uncategorize x else x"
  have same: "map (\<lambda>x. if mi_id x = mi_id (uncategorize a) then uncategorize a else x) (mediaItems s)
      = map ?g (mediaItems s)"
  proof (rule map_cong [OF refl])
    fix x assume x: "x \<in> set (mediaItems s)"
    show "(if mi_id x = mi_id (uncategorize a) then uncategorize a else x) = ?g x"
      using distinct_key_eq [OF Cons.prems(1) x x0(1)] x0(2,3)
      by (auto simp: uncategorize_def)
  qed
  have put: "updateMediaItem (uncategorize a) s = (Inr (), s\<lparr>mediaItems := map ?g (mediaItems s)\<rparr>)"
    using idb_put_no_index [of x0 "mediaItems s" mi_id "uncategorize a"] x0 same
    by (simp add: updateMediaItem_def uncategorize_def)
  have ids: "mi_id \<circ> ?g = mi_id"
    by (rule ext) (simp add: uncategorize_def)
  have d1: "distinct (map mi_id (mediaItems (s\<lparr>mediaItems := map ?g (mediaItems s)\<rparr>)))"
    using Cons.prems(1) by (simp add: ids)
  have inv1: "\<forall>i\<in>set rest. \<exists>x\<in>set (mediaItems (s\<lparr>mediaItems := map ?g (mediaItems s)\<rparr>)).
      mi_id x = mi_id i \<and> uncategorize x = uncategorize i"
  proof
    fix i assume "i \<in> set rest"
    then obtain x where x: "x \<in> set (mediaItems s)" "mi_id x = mi_id i" "uncategorize x = uncategorize i"
      using Cons.prems(2) by auto
    have "?g x \<in> set (map ?g (mediaItems s))" using x(1) by simp
    moreover have "mi_id (?g x) = mi_id i \<and> uncategorize (?g x) = uncategorize i"
      using x(2,3) by (auto simp: uncategorize_def)
    ultimately show "\<exists>x\<in>set (mediaItems (s\<lparr>mediaItems := map ?g (mediaItems s)\<rparr>)).
      mi_id x = mi_id i \<and> uncategorize x = uncategorize i"
      by auto
  qed
  have compose: "map (\<lambda>x. if mi_id x \<in> mi_id ` set rest then uncategorize x else x) (map ?g (mediaItems s))
      = map (\<lambda>x. if mi_id x \<in> mi_id ` set (a # rest) then uncategorize x else x) (mediaItems s)"
    by (auto simp: uncategorize_def)
  show ?case
    using Cons.IH [OF d1 inv1] put compose
    by (simp add: uncategorize_def [symmetric])
qed


text \<open>
  Claim C9. Deleting a category (the user having confirmed the dialog) raises no error,
  rewrites every media item of that category with the category id \<^verbatim>\<open>uncategorized\<close> and
  nothing else changed, keeps every item (same number, same ids, the items of other
  categories untouched) and removes the category record. The primary keys of the media
  store are distinct, as IndexedDB guarantees.
\<close>

theorem deleteCategory_reassigns:
  assumes "distinct (map mi_id (mediaItems s))"
  shows "fst (deleteCategory True categoryId s) = None
    \<and> mediaItems (snd (deleteCategory True categoryId s))
        = map (\<lambda>item. if mi_categoryId item = categoryId
                       then item\<lparr>mi_categoryId := js ''uncategorized''\<rparr> else item)
            (mediaItems s)
    \<and> length (mediaItems (snd (deleteCategory True categoryId s))) = length (mediaItems s)
    \<and> map mi_id (mediaItems (snd (deleteCategory True categoryId s))) = map mi_id (mediaItems s)
    \<and> categories (snd (deleteCategory True categoryId s))
        = filter (\<lambda>c. cat_id c \<noteq> categoryId) (categories s)"
proof -
  let ?items = "getMediaItemsByCategory categoryId s"
  have items: "?items = filter (\<lambda>x. mi_categoryId x = categoryId) (mediaItems s)"
    by (simp add: getMediaItemsByCategory_def idb_getByIndex_def)
  have inv: "\<forall>i\<in>set ?items. \<exists>x\<in>set (mediaItems s). mi_id x = mi_id i \<and> uncategorize x = uncategorize i"
    unfolding items by auto
  have sel: "map (\<lambda>x. if mi_id x \<in> mi_id ` set ?items then uncategorize x else x) (mediaItems s)
      = map (\<lambda>item. if mi_categoryId item = categoryId
                       then item\<lparr>mi_categoryId := js ''uncategorized''\<rparr> else item) (mediaItems s)"
  proof (rule map_cong [OF refl])
    fix x assume x: "x \<in> set (mediaItems s)"
    have "mi_id x \<in> mi_id ` set ?items \<longleftrightarrow> mi_categoryId x = categoryId"
    proof
      assume "mi_id x \<in> mi_id ` set ?items"
      then obtain y where y: "y \<in> set (mediaItems s)" "mi_categoryId y = categoryId" "mi_id x = mi_id y"
        unfolding items by auto
      have "x = y" using distinct_key_eq [OF assms x y(1) y(3)] .
      then show "mi_categoryId x = categoryId" using y(2) by simp
    next
      assume "mi_categoryId x = categoryId"
      then show "mi_id x \<in> mi_id ` set ?items" unfolding items using x by auto
    qed
    then show "(if mi_id x \<in> mi_id ` set ?items then uncategorize x else x)
        = (if mi_categoryId x = categoryId then x\<lparr>mi_categoryId := js ''uncategorized''\<rparr> else x)"
      by (simp add: uncategorize_def)
  qed
  have loop: "reassignItems ?items s =
     (Inr (), s\<lparr>mediaItems := map (\<lambda>item. if mi_categoryId item = categoryId
                       then item\<lparr>mi_categoryId := js ''uncategorized''\<rparr> else item) (mediaItems s)\<rparr>)"
    using reassignItems_map [OF assms inv] sel by simp
  have ids: "mi_id \<circ> (\<lambda>item. if mi_categoryId item = categoryId
                       then item\<lparr>mi_categoryId := js ''uncategorized''\<rparr> else item) = mi_id"
    by (rule ext) simp
  show ?thesis
    by (simp add: deleteCategory_def loop Let_def db_deleteCategory_def loadCategories_def
        setActiveCategory_def idb_delete_def getAllCategories_def ids)
qed

theorem deleteCategory_reassigns_witness:
  "map mi_categoryId (mediaItems (snd (deleteCategory True (js ''c1'') library_state)))
     = [js ''uncategorized'', js ''c2'', js ''uncategorized'']
   \<and> map mi_id (mediaItems (snd (deleteCategory True (js ''c1'') library_state)))
     = [js ''1'', js ''2'', js ''3'']
   \<and> map cat_id (categories (snd (deleteCategory True (js ''c1'') library_state))) = [js ''c2'']"
proof -
  have items: "mediaItems library_state = [stored_item (js ''1'') (js ''c1''),
      stored_item (js ''2'') (js ''c2''), stored_item (js ''3'') (js ''c1'')]"
    and cats: "categories library_state
      = [stored_category (js ''c1'') (js ''cats''), stored_category (js ''c2'') (js ''dogs'')]"
    by (simp_all add: library_state_def)
  have d: "distinct (map mi_id (mediaItems library_state))"
    by (simp add: items stored_item_def js_def)
  show ?thesis
    using deleteCategory_reassigns [OF d, of "js ''c1''"]
    by (simp add: items cats stored_item_def stored_category_def js_def)
qed


subsection \<open>Properties of saveConfig\<close>

lemma deactivateOthers_map:
  assumes "distinct (map cfg_id (aiConfigs s))"
    and "\<forall>old\<in>set olds. \<exists>x\<in>set (aiConfigs s). cfg_id x = cfg_id old \<and> deactivate x = deactivate old"
    and "deactivateOthers ident olds s = (Inr u, s')"
  shows "s' = s\<lparr>aiConfigs := map (\<lambda>x. if cfg_id x \<noteq> ident \<and> cfg_id x \<in> cfg_id ` set olds
                                       then deactivate x else x) (aiConfigs s)\<rparr>"
  using assms
proof (induction olds arbitrary: s)
  case Nil
  then show ?case by simp
next
  case (Cons a rest)
  have inv_rest: "\<forall>old\<in>set rest. \<exists>x\<in>set (aiConfigs s). cfg_id x = cfg_id old \<and> deactivate x = deactivate old"
    using Cons.prems(2) by auto
  show ?case
  proof (cases "cfg_id a = ident")
    case True
    then have run: "deactivateOthers ident rest s = (Inr u, s')"
      using Cons.prems(3) by simp
    have "map (\<lambda>x. if cfg_id x \<noteq> ident \<and> cfg_id x \<in> cfg_id ` set rest then deactivate x else x) (aiConfigs s)
        = map (\<lambda>x. if cfg_id x \<noteq> ident \<and> cfg_id x \<in> cfg_id ` set (a # rest) then deactivate x else x) (aiConfigs s)"
      using True by auto
    then show ?thesis
      using Cons.IH [OF Cons.prems(1) inv_rest run] by simp
  next
    case False
    obtain x0 where x0: "x0 \<in> set (aiConfigs s)" "cfg_id x0 = cfg_id a" "deactivate x0 = deactivate a"
      using Cons.prems(2) by auto
    let ?g = "\<lambda>x. if cfg_id x = cfg_id a then deactivate x else x"
    obtain st where st: "idb_put cfg_id [cfg_name] (deactivate a) (aiConfigs s) = Inr st"
      and run: "deactivateOthers ident rest (s\<lparr>aiConfigs := st\<rparr>) = (Inr u, s')"
      using Cons.prems(3) False
      by (auto simp: updateAIConfig_def deactivate_def split: sum.splits)
    have "st = map (\<lambda>x. if cfg_id x = cfg_id (deactivate a) then deactivate a else x) (aiConfigs s)"
      using idb_put_replace [OF st x0(1)] x0(2) by (simp add: deactivate_def)
    also have "\<dots> = map ?g (aiConfigs s)"
    proof (rule map_cong [OF refl])
      fix x assume x: "x \<in> set (aiConfigs s)"
      show "(if cfg_id x = cfg_id (deactivate a) then deactivate a else x) = ?g x"
        using distinct_key_eq [OF Cons.prems(1) x x0(1)] x0(2,3)
        by (auto simp: deactivate_def)
    qed
    finally have st_eq: "st = map ?g (aiConfigs s)" .
    have ids: "cfg_id \<circ> ?g = cfg_id"
      by (rule ext) (simp add: deactivate_def)
    have d1: "distinct (map cfg_id (aiConfigs (s\<lparr>aiConfigs := st\<rparr>)))"
      using Cons.prems(1) by (simp add: st_eq ids)
    have inv1: "\<forall>old\<in>set rest. \<exists>x\<in>set (aiConfigs (s\<lparr>aiConfigs := st\<rparr>)).
        cfg_id x = cfg_id old \<and> deactivate x = deactivate old"
    proof
      fix old assume "old \<in> set rest"
      then obtain x where x: "x \<in> set (aiConfigs s)" "cfg_id x = cfg_id old" "deactivate x = deactivate old"
        using inv_rest by auto
      have "?g x \<in> set st" using x(1) by (simp add: st_eq)
      moreover have "cfg_id (?g x) = cfg_id old \<and> deactivate (?g x) = deactivate old"
        using x(2,3) by (auto simp: deactivate_def)
      ultimately show "\<exists>x\<in>set (aiConfigs (s\<lparr>aiConfigs := st\<rparr>)).
          cfg_id x = cfg_id old \<and> deactivate x = deactivate old"
        by auto
    qed
    have compose: "map (\<lambda>x. if cfg_id x \<noteq> ident \<and> cfg_id x \<in> cfg_id ` set rest then deactivate x else x)
           (map ?g (aiConfigs s))
        = map (\<lambda>x. if cfg_id x \<noteq> ident \<and> cfg_id x \<in> cfg_id ` set (a # rest) then deactivate x else x)
           (aiConfigs s)"
      using False by (auto simp: deactivate_def)
    show ?thesis
      using Cons.IH [OF d1 inv1 run] compose by (simp add: st_eq)
  qed
qed

lemma encryptString_aiConfigs:
  "aiConfigs (snd (encryptString B t s)) = aiConfigs s"
  by (simp add: encryptString_def getRandomValues_def Let_def split: sum.splits)

lemma generateUUID_aiConfigs: "aiConfigs (snd (generateUUID s)) = aiConfigs s"
  by (simp add: generateUUID_def split: prod.splits)

lemma idOrGenerated_aiConfigs: "aiConfigs (snd (idOrGenerated v s)) = aiConfigs s"
  by (simp add: idOrGenerated_def generateUUID_aiConfigs split: option.splits)

lemma saveConfig_steps:
  assumes "saveConfig B config (s::'k state) = (Inr cd, s')"
  shows "\<exists>(s2::'k state) s3 s4. aiConfigs s2 = aiConfigs s \<and> cfg_isActive cd
      \<and> deactivateOthers (cfg_id cd) (aiConfigs s2) s2 = (Inr (), s3)
      \<and> (case getAIConfig (cfg_id cd) s3 of
            Some existingConfig \<Rightarrow> updateAIConfig cd s3
          | None \<Rightarrow> addAIConfig cd s3) = (Inr (), s4)
      \<and> aiConfigs s' = aiConfigs s4"
proof -
  obtain encrypted iv s1 where enc: "encryptString B (in_apiKey config) s = (Inr (encrypted, iv), s1)"
    using assms by (auto simp: saveConfig_def split: prod.splits sum.splits)
  obtain ident s2 where id2: "idOrGenerated (in_id config) s1 = (ident, s2)"
    by (cases "idOrGenerated (in_id config) s1")
  have "aiConfigs s1 = aiConfigs s"
    using encryptString_aiConfigs [of B "in_apiKey config" s] enc by simp
  moreover have "aiConfigs s2 = aiConfigs s1"
    using idOrGenerated_aiConfigs [of "in_id config" s1] id2 by simp
  ultimately have same: "aiConfigs s2 = aiConfigs s" by simp
  define configData where "configData =
                 \<lparr>cfg_id = ident,
                  cfg_name = orDefault (in_name config) (js ''Default Config''),
                  cfg_apiUrl = in_apiUrl config,
                  cfg_apiKeyEncrypted = encrypted,
                  cfg_apiKeyIv = iv,
                  cfg_model = in_model config,
                  cfg_defaultPrompt = orDefault (in_defaultPrompt config) (defaultPrompt s2),
                  cfg_isActive = True,
                  cfg_lastTested = now s2\<rparr>"
  have sc: "saveConfig B config s =
     (case deactivateOthers ident (aiConfigs s2) s2 of
                (Inl e, s3) \<Rightarrow> (Inl e, s3)
              | (Inr _, s3) \<Rightarrow>
                  (case (case getAIConfig ident s3 of
                           Some existingConfig \<Rightarrow> updateAIConfig configData s3
                         | None \<Rightarrow> addAIConfig configData s3) of
                     (Inl e, s4) \<Rightarrow> (Inl e, s4)
                   | (Inr _, s4) \<Rightarrow>
                       (Inr configData,
                        s4\<lparr>apiUrl := in_apiUrl config,
                           apiKey := in_apiKey config,
                           model := in_model config,
                           defaultPrompt := orDefault (in_defaultPrompt config)
                                              (defaultPrompt s4)\<rparr>)))"
    unfolding configData_def saveConfig_def enc Let_def getAllAIConfigs_def
    by (simp only: prod.case sum.case id2)
  obtain u s3 where d: "deactivateOthers ident (aiConfigs s2) s2 = (Inr u, s3)"
    using assms unfolding sc by (auto split: prod.splits sum.splits)
  obtain r s4 where f: "(case getAIConfig ident s3 of
                           Some existingConfig \<Rightarrow> updateAIConfig configData s3
                         | None \<Rightarrow> addAIConfig configData s3) = (Inr r, s4)"
    using assms unfolding sc d by (auto split: prod.splits sum.splits)
  have res: "cd = configData \<and> aiConfigs s' = aiConfigs s4"
    using assms unfolding sc d by (auto simp: f)
  have act: "cfg_isActive configData \<and> cfg_id configData = ident"
    by (simp add: configData_def)
  have "aiConfigs s2 = aiConfigs s \<and> cfg_isActive cd
      \<and> deactivateOthers (cfg_id cd) (aiConfigs s2) s2 = (Inr (), s3)
      \<and> (case getAIConfig (cfg_id cd) s3 of
            Some existingConfig \<Rightarrow> updateAIConfig cd s3
          | None \<Rightarrow> addAIConfig cd s3) = (Inr (), s4)
      \<and> aiConfigs s' = aiConfigs s4"
    using same d f res act by (auto split: option.splits)
  then show ?thesis by blast
qed


lemma single_active:
  assumes "distinct (map cfg_id xs)" and "x0 \<in> set xs" and "cfg_id x0 = ident"
    and "cfg_isActive cd"
  shows "filter cfg_isActive (map (\<lambda>x. if cfg_id x = ident then cd else deactivate x) xs) = [cd]"
  using assms
proof (induction xs)
  case Nil
  then show ?case by simp
next
  case (Cons x xs)
  show ?case
  proof (cases "cfg_id x = ident")
    case True
    then have "\<forall>y\<in>set xs. cfg_id y \<noteq> ident"
      using Cons.prems(1) by (force simp: image_iff)
    then have "filter cfg_isActive (map (\<lambda>x. if cfg_id x = ident then cd else deactivate x) xs) = []"
      by (auto simp: filter_empty_conv deactivate_def)
    then show ?thesis
      using True Cons.prems(4) by simp
  next
    case False
    then have "x0 \<in> set xs"
      using Cons.prems(2,3) by auto
    then show ?thesis
      using False Cons.IH Cons.prems by (simp add: deactivate_def)
  qed
qed

text \<open>
  Claim C6. When \<^verbatim>\<open>saveConfig\<close> returns, the saved configuration is the only active one
  in the store, and every configuration with another id that was in the store is
  still there with \<^verbatim>\<open>isActive = false\<close>. The primary keys of the configuration store
  are distinct, as IndexedDB guarantees.
\<close>

theorem saveConfig_single_active:
  assumes "distinct (map cfg_id (aiConfigs s))"
    and "saveConfig B config s = (Inr configData, s')"
  shows "filter cfg_isActive (aiConfigs s') = [configData]
       \<and> (\<forall>old\<in>set (aiConfigs s). cfg_id old \<noteq> cfg_id configData \<longrightarrow>
             old\<lparr>cfg_isActive := False\<rparr> \<in> set (aiConfigs s'))"
proof -
  let ?ident = "cfg_id configData"
  obtain s2 s3 s4 :: "'a state" where same: "aiConfigs s2 = aiConfigs s"
    and active: "cfg_isActive configData"
    and loop: "deactivateOthers ?ident (aiConfigs s2) s2 = (Inr (), s3)"
    and final: "(case getAIConfig ?ident s3 of
            Some existingConfig \<Rightarrow> updateAIConfig configData s3
          | None \<Rightarrow> addAIConfig configData s3) = (Inr (), s4)"
    and result: "aiConfigs s' = aiConfigs s4"
    using saveConfig_steps [OF assms(2)] by blast
  let ?off = "\<lambda>x. if cfg_id x \<noteq> ?ident then deactivate x else x"
  have d2: "distinct (map cfg_id (aiConfigs s2))" using assms(1) same by simp
  have inv: "\<forall>old\<in>set (aiConfigs s2). \<exists>x\<in>set (aiConfigs s2).
      cfg_id x = cfg_id old \<and> deactivate x = deactivate old"
    by auto
  have "s3 = s2\<lparr>aiConfigs := map (\<lambda>x. if cfg_id x \<noteq> ?ident \<and> cfg_id x \<in> cfg_id ` set (aiConfigs s2)
                                       then deactivate x else x) (aiConfigs s2)\<rparr>"
    by (rule deactivateOthers_map [OF d2 inv loop])
  moreover have "map (\<lambda>x. if cfg_id x \<noteq> ?ident \<and> cfg_id x \<in> cfg_id ` set (aiConfigs s2)
                                       then deactivate x else x) (aiConfigs s2)
      = map ?off (aiConfigs s)"
    unfolding same by (rule map_cong [OF refl]) auto
  ultimately have c3: "aiConfigs s3 = map ?off (aiConfigs s)" by simp
  show ?thesis
  proof (cases "getAIConfig ?ident s3")
    case None
    then have absent: "\<forall>x\<in>set (aiConfigs s). cfg_id x \<noteq> ?ident"
      unfolding getAIConfig_def idb_get_def c3 find_None_iff by (auto simp: deactivate_def)
    have "addAIConfig configData s3 = (Inr (), s4)"
      using final None by simp
    then have c4: "aiConfigs s4 = map ?off (aiConfigs s) @ [configData]"
      by (auto simp: addAIConfig_def idb_add_def c3 split: if_splits sum.splits)
    have "filter cfg_isActive (map ?off (aiConfigs s)) = []"
      using absent by (auto simp: filter_empty_conv deactivate_def)
    then have one: "filter cfg_isActive (aiConfigs s') = [configData]"
      using active by (simp add: result c4)
    have "\<forall>old\<in>set (aiConfigs s). cfg_id old \<noteq> ?ident \<longrightarrow>
        old\<lparr>cfg_isActive := False\<rparr> \<in> set (aiConfigs s')"
      unfolding result c4 by (auto simp: deactivate_def image_iff)
    then show ?thesis using one by simp
  next
    case (Some existingConfig)
    then obtain x0 where x0: "x0 \<in> set (aiConfigs s)" "cfg_id x0 = ?ident"
      unfolding getAIConfig_def idb_get_def c3 find_Some_iff
      by (auto simp: deactivate_def split: if_splits) (metis nth_mem)+
    have present: "?off x0 \<in> set (aiConfigs s3) \<and> cfg_id (?off x0) = cfg_id configData"
      using x0 by (simp add: c3)
    have "updateAIConfig configData s3 = (Inr (), s4)"
      using final Some by simp
    then obtain st where st: "idb_put cfg_id [cfg_name] configData (aiConfigs s3) = Inr st"
      and c4: "aiConfigs s4 = st"
      by (auto simp: updateAIConfig_def split: sum.splits)
    have "st = map (\<lambda>x. if cfg_id x = ?ident then configData else x) (aiConfigs s3)"
      using idb_put_replace [OF st conjunct1 [OF present] conjunct2 [OF present]] .
    also have "\<dots> = map (\<lambda>x. if cfg_id x = ?ident then configData else deactivate x) (aiConfigs s)"
      unfolding c3 by (simp add: deactivate_def)
    finally have st_eq: "st = map (\<lambda>x. if cfg_id x = ?ident then configData else deactivate x)
        (aiConfigs s)" .
    have one: "filter cfg_isActive (aiConfigs s') = [configData]"
      unfolding result c4 st_eq by (rule single_active [OF assms(1) x0 active])
    have "\<forall>old\<in>set (aiConfigs s). cfg_id old \<noteq> ?ident \<longrightarrow>
        old\<lparr>cfg_isActive := False\<rparr> \<in> set (aiConfigs s')"
      unfolding result c4 st_eq by (auto simp: deactivate_def image_iff)
    then show ?thesis using one by simp
  qed
qed

lemma saveConfig_id:
  assumes "saveConfig B config s = (Inr cd, s')" and "in_id config = Some i" and "i \<noteq> []"
  shows "cfg_id cd = i"
  using assms
  by (auto simp: saveConfig_def idOrGenerated_def Let_def split: prod.splits sum.splits)

lemma second_saved:
  "\<exists>cd s'. saveConfig test_browser second_input configured_state = (Inr cd, s')"
  by (simp add: saveConfig_def encryptString_def getMasterKey_def getRandomValues_def
      configured_state_def open_state_def fresh_state_def second_input_def first_config_def
      idOrGenerated_def generateUUID_def getAllAIConfigs_def getAIConfig_def idb_get_def
      updateAIConfig_def addAIConfig_def idb_put_def idb_add_def orDefault_def test_browser_def
      bufferToBase64_def hexDigit_def js_def Let_def split: prod.splits)

theorem saveConfig_single_active_witness:
  "cfg_isActive first_config
   \<and> filter cfg_isActive (aiConfigs configured_state) = [first_config]
   \<and> length (filter cfg_isActive
        (aiConfigs (snd (saveConfig test_browser second_input configured_state)))) = 1
   \<and> first_config\<lparr>cfg_isActive := False\<rparr>
        \<in> set (aiConfigs (snd (saveConfig test_browser second_input configured_state)))"
proof -
  obtain cd s' where run: "saveConfig test_browser second_input configured_state = (Inr cd, s')"
    using second_saved by blast
  have d: "distinct (map cfg_id (aiConfigs configured_state))"
    by (simp add: configured_state_def)
  have before: "aiConfigs configured_state = [first_config] \<and> cfg_isActive first_config"
    by (simp add: configured_state_def first_config_def)
  have "cfg_id cd = js ''B''"
    using saveConfig_id [OF run, of "js ''B''"] by (simp add: second_input_def js_def)
  then have other: "cfg_id first_config \<noteq> cfg_id cd"
    by (simp add: first_config_def js_def)
  show ?thesis
    using saveConfig_single_active [OF d run] before other by (simp add: run)
qed

text \<open>
  A save that the store rejects (here: a new id with the name of the stored
  configuration, which the unique index on \<^verbatim>\<open>name\<close> refuses) throws after the other
  configurations were deactivated: no configuration is active afterwards.
\<close>

lemma saveConfig_rejected:
  "fst (saveConfig test_browser same_name_input configured_state) = Inl ConstraintError
   \<and> filter cfg_isActive (aiConfigs (snd (saveConfig test_browser same_name_input configured_state))) = []"
  by (simp add: saveConfig_def encryptString_def getMasterKey_def getRandomValues_def
      configured_state_def open_state_def fresh_state_def same_name_input_def first_config_def
      idOrGenerated_def getAllAIConfigs_def getAIConfig_def idb_get_def
      updateAIConfig_def addAIConfig_def idb_put_def idb_add_def orDefault_def test_browser_def
      bufferToBase64_def js_def Let_def)

subsection \<open>Properties of verifyPassword after setupPassword\<close>

lemma ucast_byte_roundtrip: "map ucast (map ucast (x::bytes) :: jsstring) = x"
proof -
  have "(ucast (ucast (b::8 word) :: 16 word) :: 8 word) = b" for b
    by (simp add: ucast_up_ucast_id is_up)
  then show ?thesis by (induction x) simp_all
qed

lemma shifted_draws: "map (\<lambda>i. (r::nat \<Rightarrow> 8 word) (i + n)) [0..<m] = map r [n..<n + m]"
proof -
  have "map (\<lambda>i. r (i + n)) [0..<m] = map r (map (\<lambda>i. i + n) [0..<m])"
    by simp
  also have "map (\<lambda>i. i + n) [0..<m] = [n..<n + m]"
    using map_add_upt [of n m] by (simp add: add.commute)
  finally show ?thesis .
qed

lemma base64_reads_back:
  assumes "reads_back B"
  shows "base64ToBuffer B (bufferToBase64 B x) = Inr x"
proof -
  have "atob B (btoa B (map ucast x)) = Some (map ucast x)"
    using assms by (simp add: reads_back_def)
  then have "base64ToBuffer B (bufferToBase64 B x) = Inr (map ucast (map ucast x :: jsstring))"
    unfolding base64ToBuffer_def bufferToBase64_def by (simp only: option.case)
  then show ?thesis
    by (simp only: ucast_byte_roundtrip)
qed

lemma setupPassword_stores:
  assumes laws: "reads_back B" and succeeded: "fst (setupPassword B P0 s) = Inr True"
  shows "salt (snd (setupPassword B P0 s)) = Some (setup_salt B s)
     \<and> localStorage (snd (setupPassword B P0 s)) ''password_test''
         = Some (json_stringify B (bufferToBase64 B (setup_verifier B P0 s))
              (bufferToBase64 B (setup_iv s)))
     \<and> persistedSalt B ((snd (setupPassword B P0 s))\<lparr>salt := None\<rparr>) = Some (setup_salt B s)"
proof -
  have "map (cryptoRandom s) [0..<16] \<noteq> []"
    by simp
  moreover have "\<forall>x::bytes. x \<noteq> [] \<longrightarrow> btoa B (map ucast x) \<noteq> []"
    using laws unfolding reads_back_def by blast
  ultimately have ne: "bufferToBase64 B (map (cryptoRandom s) [0..<16]) \<noteq> []"
    unfolding bufferToBase64_def by blast
  have decoded: "atob B (bufferToBase64 B x) = Some (map ucast x)" for x
    using laws unfolding reads_back_def bufferToBase64_def by blast
  have byte: "(ucast (ucast (b::8 word) :: 16 word) :: 8 word) = b" for b
    by (simp add: ucast_up_ucast_id is_up)
  show ?thesis
    using succeeded ne
    by (auto simp: byte setupPassword_def initializeSalt_def deriveKey_def getRandomValues_def Let_def
        setup_salt_def setup_iv_def setup_verifier_def truthy_def persistedSalt_def decoded
        ucast_byte_roundtrip base64ToBuffer_def shifted_draws
        split: option.splits if_splits sum.splits prod.splits)
qed

lemma verifyPassword_later:
  assumes laws: "reads_back B" and succeeded: "fst (setupPassword B P0 s) = Inr True"
    and storage: "localStorage s' = localStorage (snd (setupPassword B P0 s))"
    and held: "salt s' = None \<or> salt s' = salt (snd (setupPassword B P0 s))"
  shows "fst (verifyPassword B P s') =
     (case aes_gcm_decrypt B (pbkdf2 B SHA_256 (setup_salt B s) 100000 (utf8_encode B P) 256)
             (setup_iv s) (setup_verifier B P0 s) of
        None \<Rightarrow> False
      | Some plain \<Rightarrow> utf8_decode B plain = js ''PASSWORD_CORRECT'')"
proof -
  note st = setupPassword_stores [OF laws succeeded]
  let ?stored = "json_stringify B (bufferToBase64 B (setup_verifier B P0 s))
              (bufferToBase64 B (setup_iv s))"
  let ?key = "pbkdf2 B SHA_256 (setup_salt B s) 100000 (utf8_encode B P) 256"
  have p: "persistedSalt B s' = Some (setup_salt B s)"
    using held st storage by (auto simp: persistedSalt_def)
  have stored: "localStorage s' ''password_test'' = Some ?stored"
    using st storage by simp
  have json: "json_parse B ?stored = Some (bufferToBase64 B (setup_verifier B P0 s),
      bufferToBase64 B (setup_iv s))" and ne: "?stored \<noteq> []"
    using laws by (simp_all add: reads_back_def)
  have derive: "deriveKey B P s' = (Inr ?key, s'\<lparr>salt := Some (setup_salt B s), masterKey := Some ?key\<rparr>)"
    by (rule deriveKey_persisted [OF p])
  show ?thesis
    unfolding verifyPassword_def stored option.case derive
    by (simp add: ne json base64_reads_back [OF laws] split: option.splits)
qed


lemma toy_json: "toy_parse (toy_stringify encrypted iv) = Some (encrypted, iv)"
proof (induction encrypted)
  case Nil
  show ?case by (cases iv) (simp_all add: toy_stringify_def)
next
  case (Cons c encrypted)
  then show ?case by (simp add: toy_stringify_def)
qed

lemma byte_sized: "filter (\<lambda>c. 0xFF < c) (map ucast (x::bytes) :: jsstring) = []"
proof -
  have "\<not> 0xFF < (ucast (b::8 word) :: 16 word)" for b
  proof -
    have small: "unat b < 256"
      using unsigned_less [of b, where 'a = nat] by simp
    then have "take_bit 16 (unat b) = unat b"
      by (simp add: take_bit_nat_eq_self_iff)
    then show ?thesis
      using small by (simp add: word_less_nat_alt unsigned_ucast_eq)
  qed
  then show ?thesis by (induction x) simp_all
qed

lemma padding_reads_back: "reads_back padding_browser"
proof -
  have ascii: "map ucast (map ucast (js ''PASSWORD_CORRECT'') :: bytes) = js ''PASSWORD_CORRECT''"
    by (simp add: js_def)
  have nonempty: "toy_stringify encrypted iv \<noteq> []" for encrypted iv
    by (simp add: toy_stringify_def)
  show ?thesis
    unfolding reads_back_def
    by (simp add: padding_browser_def test_browser_def byte_sized toy_json nonempty ascii
        del: map_map)
qed

lemma padding_setup: "fst (setupPassword padding_browser (js ''pw'') fresh_state) = Inr True"
  by (simp add: setupPassword_def initializeSalt_def deriveKey_def getRandomValues_def Let_def
      fresh_state_def split: prod.splits)

lemma reopened_state:
  "localStorage reopened = localStorage (snd (setupPassword padding_browser (js ''pw'') fresh_state))
   \<and> (salt reopened = None
        \<or> salt reopened = salt (snd (setupPassword padding_browser (js ''pw'') fresh_state)))"
  by (simp add: reopened_def fresh_state_def)

lemma padding_keys:
  "pbkdf2 padding_browser SHA_256 slt 100000 (utf8_encode padding_browser (js ''pw'' @ [0])) 256
     = pbkdf2 padding_browser SHA_256 slt 100000 (utf8_encode padding_browser (js ''pw'')) 256
   \<and> js ''pw'' @ [0] \<noteq> js ''pw''"
proof -
  have "replicate (Suc 61) (0::8 word) = 0 # replicate 61 0"
    by (rule replicate.simps)
  moreover have "Suc 61 = 62" by simp
  ultimately have "replicate 62 (0::8 word) = 0 # replicate 61 0"
    by simp
  then show ?thesis
    by (simp add: padding_browser_def test_browser_def js_def)
qed

text \<open>
  Claim C2, as the code has it. Without a PasswordVerifier record (or with an empty
  one) \<^verbatim>\<open>verifyPassword(P)\<close> returns true. With one, it returns true exactly when the key
  derived from \<open>P\<close> is obtained, the record parses, both fields are accepted by \<^verbatim>\<open>atob\<close>,
  AES-GCM decrypts the ciphertext with that key and iv, and the plaintext decodes to
  \<^verbatim>\<open>PASSWORD_CORRECT\<close>; every failure on the way gives false, and the result is a boolean
  in every case. After a successful \<^verbatim>\<open>setupPassword(P0)\<close>, in any later state with the
  same \<^verbatim>\<open>localStorage\<close> whose KeyManager holds the salt of the set-up or none,
  \<^verbatim>\<open>verifyPassword(P)\<close> is the outcome of decrypting the verifier that the set-up made
  from \<open>P0\<close> with the PBKDF2 key of \<open>P\<close>: true for \<open>P0\<close>, true for every password with
  the same derived key as \<open>P0\<close>, false whenever that decryption is rejected.
\<close>

theorem verifyPassword_iff:
  "(\<not> truthy (localStorage s ''password_test'') \<longrightarrow> fst (verifyPassword B P s) = True)
   \<and> (localStorage s ''password_test'' = Some testData \<and> testData \<noteq> [] \<longrightarrow>
        fst (verifyPassword B P s) =
          (\<exists>key encrypted iv ivBinary encryptedBinary plain.
              fst (deriveKey B P s) = Inr key
            \<and> json_parse B testData = Some (encrypted, iv)
            \<and> atob B iv = Some ivBinary \<and> atob B encrypted = Some encryptedBinary
            \<and> aes_gcm_decrypt B key (map ucast ivBinary) (map ucast encryptedBinary) = Some plain
            \<and> utf8_decode B plain = js ''PASSWORD_CORRECT''))
   \<and> (reads_back B \<and> fst (setupPassword B P0 s) = Inr True
        \<and> localStorage s' = localStorage (snd (setupPassword B P0 s))
        \<and> (salt s' = None \<or> salt s' = salt (snd (setupPassword B P0 s))) \<longrightarrow>
        fst (verifyPassword B P s') =
          (case aes_gcm_decrypt B
                  (pbkdf2 B SHA_256 (setup_salt B s) 100000 (utf8_encode B P) 256)
                  (setup_iv s) (setup_verifier B P0 s) of
             None \<Rightarrow> False
           | Some plain \<Rightarrow> utf8_decode B plain = js ''PASSWORD_CORRECT'')
      \<and> fst (verifyPassword B P0 s') = True
      \<and> (pbkdf2 B SHA_256 (setup_salt B s) 100000 (utf8_encode B P) 256
           = pbkdf2 B SHA_256 (setup_salt B s) 100000 (utf8_encode B P0) 256 \<longrightarrow>
         fst (verifyPassword B P s') = True)
      \<and> (aes_gcm_decrypt B (pbkdf2 B SHA_256 (setup_salt B s) 100000 (utf8_encode B P) 256)
            (setup_iv s) (setup_verifier B P0 s) = None \<longrightarrow>
         fst (verifyPassword B P s') = False))"
proof (intro conjI impI)
  show "fst (verifyPassword B P s) = True" if "\<not> truthy (localStorage s ''password_test'')"
    using that by (auto simp: truthy_def verifyPassword_def split: option.splits)
  show "fst (verifyPassword B P s) =
          (\<exists>key encrypted iv ivBinary encryptedBinary plain.
              fst (deriveKey B P s) = Inr key
            \<and> json_parse B testData = Some (encrypted, iv)
            \<and> atob B iv = Some ivBinary \<and> atob B encrypted = Some encryptedBinary
            \<and> aes_gcm_decrypt B key (map ucast ivBinary) (map ucast encryptedBinary) = Some plain
            \<and> utf8_decode B plain = js ''PASSWORD_CORRECT'')"
    if "localStorage s ''password_test'' = Some testData \<and> testData \<noteq> []"
    using that
    by (auto simp: verifyPassword_def base64ToBuffer_def
        split: option.splits prod.splits sum.splits)
next
  assume a: "reads_back B \<and> fst (setupPassword B P0 s) = Inr True
        \<and> localStorage s' = localStorage (snd (setupPassword B P0 s))
        \<and> (salt s' = None \<or> salt s' = salt (snd (setupPassword B P0 s)))"
  then have laws: "reads_back B" and succeeded: "fst (setupPassword B P0 s) = Inr True"
    and storage: "localStorage s' = localStorage (snd (setupPassword B P0 s))"
    and held: "salt s' = None \<or> salt s' = salt (snd (setupPassword B P0 s))"
    by simp_all
  note later = verifyPassword_later [OF laws succeeded storage held]
  have cipher: "aes_gcm_decrypt B key iv (aes_gcm_encrypt B key iv plain) = Some plain"
    for key iv plain
    using laws by (simp add: reads_back_def)
  have utf8: "utf8_decode B (utf8_encode B (js ''PASSWORD_CORRECT'')) = js ''PASSWORD_CORRECT''"
    using laws by (simp add: reads_back_def)
  show "fst (verifyPassword B P s') =
          (case aes_gcm_decrypt B
                  (pbkdf2 B SHA_256 (setup_salt B s) 100000 (utf8_encode B P) 256)
                  (setup_iv s) (setup_verifier B P0 s) of
             None \<Rightarrow> False
           | Some plain \<Rightarrow> utf8_decode B plain = js ''PASSWORD_CORRECT'')"
    by (rule later)
  show own: "fst (verifyPassword B P0 s') = True"
    unfolding later [of P0] by (simp add: setup_verifier_def cipher utf8)
  show "fst (verifyPassword B P s') = True"
    if "pbkdf2 B SHA_256 (setup_salt B s) 100000 (utf8_encode B P) 256
           = pbkdf2 B SHA_256 (setup_salt B s) 100000 (utf8_encode B P0) 256"
    unfolding later [of P] that by (simp add: setup_verifier_def cipher utf8)
  show "fst (verifyPassword B P s') = False"
    if "aes_gcm_decrypt B (pbkdf2 B SHA_256 (setup_salt B s) 100000 (utf8_encode B P) 256)
            (setup_iv s) (setup_verifier B P0 s) = None"
    unfolding later [of P] that by simp
qed

lemma padding_wrong:
  "aes_gcm_decrypt padding_browser
     (pbkdf2 padding_browser SHA_256 slt 100000 (utf8_encode padding_browser (js ''pv'')) 256)
     iv (setup_verifier padding_browser (js ''pw'') s) = None"
proof -
  define n where "n = 62 + length slt + length iv"
  have len: "length ([0x70, 0x76] @ replicate 62 (0::8 word) @ slt) + length iv = Suc (Suc n)"
    by (simp add: n_def)
  have key: "pbkdf2 padding_browser SHA_256 slt 100000 (utf8_encode padding_browser (js ''pv'')) 256
      = [0x70, 0x76] @ replicate 62 0 @ slt"
    by (simp add: padding_browser_def test_browser_def js_def)
  obtain rest where cipher: "setup_verifier padding_browser (js ''pw'') s = 0x70 # 0x77 # rest"
    by (simp add: setup_verifier_def padding_browser_def test_browser_def js_def)
  have decrypt: "aes_gcm_decrypt padding_browser key iv cipher
      = (if take (length key + length iv) cipher = key @ iv
         then Some (drop (length key + length iv) cipher) else None)" for key iv cipher
    by (simp add: padding_browser_def test_browser_def)
  show ?thesis
    unfolding key cipher decrypt len by simp
qed

theorem verifyPassword_iff_witness:
  "fst (verifyPassword test_browser (js ''pw'') fresh_state) = True
   \<and> fst (verifyPassword test_browser (js ''pw'') vault_state) = True
   \<and> fst (verifyPassword test_browser (js ''pv'') vault_state) = False
   \<and> fst (verifyPassword padding_browser (js ''pw'') reopened) = True
   \<and> fst (verifyPassword padding_browser (js ''pw'' @ [0]) reopened) = True
   \<and> fst (verifyPassword padding_browser (js ''pv'') reopened) = False"
proof -
  let ?stored = "js ''pw'' @ [1, 2, 3] @ [9] @ js ''PASSWORD_CORRECT'' @ [0x7C] @ [9]"
  have ne: "?stored \<noteq> ([]::jsstring)"
    by (simp add: js_def)
  have none: "\<not> truthy (localStorage fresh_state ''password_test'')"
    by (simp add: truthy_def fresh_state_def)
  have k: "fst (deriveKey test_browser (js ''pw'') vault_state) = Inr [0x70, 0x77, 1, 2, 3]"
    unfolding deriveKey_persisted [OF vault_salt] by (simp add: test_browser_def js_def)
  have k': "fst (deriveKey test_browser (js ''pv'') vault_state) = Inr [0x70, 0x76, 1, 2, 3]"
    unfolding deriveKey_persisted [OF vault_salt] by (simp add: test_browser_def js_def)
  have parsed: "json_parse test_browser ?stored
      = Some (js ''pw'' @ [1, 2, 3] @ [9] @ js ''PASSWORD_CORRECT'', [9])"
    by (simp add: test_browser_def js_def)
  have decoded: "atob test_browser [9] = Some [9]
      \<and> atob test_browser (js ''pw'' @ [1, 2, 3] @ [9] @ js ''PASSWORD_CORRECT'')
          = Some (js ''pw'' @ [1, 2, 3] @ [9] @ js ''PASSWORD_CORRECT'')"
    by (simp add: test_browser_def js_def)
  have right: "aes_gcm_decrypt test_browser [0x70, 0x77, 1, 2, 3] (map ucast [9::jschar])
       (map ucast (js ''pw'' @ [1, 2, 3] @ [9] @ js ''PASSWORD_CORRECT''))
      = Some (map ucast (js ''PASSWORD_CORRECT''))"
    by (simp add: test_browser_def js_def)
  have wrong: "aes_gcm_decrypt test_browser [0x70, 0x76, 1, 2, 3] (map ucast [9::jschar])
       (map ucast (js ''pw'' @ [1, 2, 3] @ [9] @ js ''PASSWORD_CORRECT'')) = None"
    by (simp add: test_browser_def js_def)
  have ascii: "utf8_decode test_browser (map ucast (js ''PASSWORD_CORRECT'')) = js ''PASSWORD_CORRECT''"
    by (simp add: test_browser_def js_def)
  have first_run: "fst (verifyPassword test_browser (js ''pw'') fresh_state) = True"
    using verifyPassword_iff [where B = test_browser and P = "js ''pw''" and s = fresh_state
        and testData = ?stored and P0 = "js ''pw''" and s' = reopened] none
    by blast
  have accepted: "fst (verifyPassword test_browser (js ''pw'') vault_state) = True"
    using verifyPassword_iff [where B = test_browser and P = "js ''pw''" and s = vault_state
        and testData = ?stored and P0 = "js ''pw''" and s' = reopened]
      vault_verifier ne k parsed decoded right ascii
    by auto
  have rejected: "fst (verifyPassword test_browser (js ''pv'') vault_state) = False"
    using verifyPassword_iff [where B = test_browser and P = "js ''pv''" and s = vault_state
        and testData = ?stored and P0 = "js ''pw''" and s' = reopened]
      vault_verifier ne k' parsed decoded wrong
    by auto
  have own: "fst (verifyPassword padding_browser (js ''pw'') reopened) = True"
    using verifyPassword_iff [where B = padding_browser and P = "js ''pw''" and s = fresh_state
        and testData = ?stored and P0 = "js ''pw''" and s' = reopened]
      padding_reads_back padding_setup reopened_state
    by blast
  have padded: "fst (verifyPassword padding_browser (js ''pw'' @ [0]) reopened) = True"
    using verifyPassword_iff [where B = padding_browser and P = "js ''pw'' @ [0]" and s = fresh_state
        and testData = ?stored and P0 = "js ''pw''" and s' = reopened]
      padding_reads_back padding_setup reopened_state
      padding_keys [of "setup_salt padding_browser fresh_state"]
    by blast
  have other: "fst (verifyPassword padding_browser (js ''pv'') reopened) = False"
    using verifyPassword_iff [where B = padding_browser and P = "js ''pv''" and s = fresh_state
        and testData = ?stored and P0 = "js ''pw''" and s' = reopened]
      padding_reads_back padding_setup reopened_state
      padding_wrong [of "setup_salt padding_browser fresh_state" "setup_iv fresh_state" fresh_state]
    by blast
  show ?thesis
    using first_run accepted rejected own padded other by blast
qed

text \<open>
  Claim C2 as stated has \<^verbatim>\<open>verifyPassword\<close> return true only for the exact password of
  the set-up. PBKDF2 runs HMAC with the password as key, and HMAC fills a short key up
  with zero bytes: a password and the same password followed by U+0000 derive the same
  key. In a browser whose PBKDF2 does so, after \<^verbatim>\<open>setupPassword('pw')\<close> the password
  \<^verbatim>\<open>pw\<close> followed by U+0000 is accepted, on the page opened again and on the locked one.
\<close>

theorem verifyPassword_exact_counterexample:
  "reads_back padding_browser
   \<and> fst (setupPassword padding_browser (js ''pw'') fresh_state) = Inr True
   \<and> js ''pw'' @ [0] \<noteq> js ''pw''
   \<and> fst (verifyPassword padding_browser (js ''pw'' @ [0]) reopened) = True
   \<and> fst (verifyPassword padding_browser (js ''pw'' @ [0])
        (lock (snd (setupPassword padding_browser (js ''pw'') fresh_state)))) = True"
proof -
  have cipher: "aes_gcm_decrypt padding_browser key iv (aes_gcm_encrypt padding_browser key iv plain)
      = Some plain" for key iv plain
    using padding_reads_back by (simp add: reads_back_def)
  have utf8: "utf8_decode padding_browser (utf8_encode padding_browser (js ''PASSWORD_CORRECT''))
      = js ''PASSWORD_CORRECT''"
    using padding_reads_back by (simp add: reads_back_def)
  have locked: "localStorage (lock (snd (setupPassword padding_browser (js ''pw'') fresh_state)))
       = localStorage (snd (setupPassword padding_browser (js ''pw'') fresh_state))
     \<and> (salt (lock (snd (setupPassword padding_browser (js ''pw'') fresh_state))) = None
        \<or> salt (lock (snd (setupPassword padding_browser (js ''pw'') fresh_state)))
            = salt (snd (setupPassword padding_browser (js ''pw'') fresh_state)))"
    by (simp add: lock_def)
  have a: "fst (verifyPassword padding_browser (js ''pw'' @ [0]) reopened) = True"
    unfolding verifyPassword_later [OF padding_reads_back padding_setup
        conjunct1 [OF reopened_state] conjunct2 [OF reopened_state]]
      conjunct1 [OF padding_keys]
    by (simp add: setup_verifier_def cipher utf8)
  have b: "fst (verifyPassword padding_browser (js ''pw'' @ [0])
        (lock (snd (setupPassword padding_browser (js ''pw'') fresh_state)))) = True"
    unfolding verifyPassword_later [OF padding_reads_back padding_setup
        conjunct1 [OF locked] conjunct2 [OF locked]]
      conjunct1 [OF padding_keys]
    by (simp add: setup_verifier_def cipher utf8)
  show ?thesis
    using padding_reads_back padding_setup padding_keys a b by simp
qed

end
